theory Spec2Isabelle
  imports Complex_Main "HOL-Library.Word" "HOL-Library.Log_Nat"
begin

section \<open>Single-precision values\<close>

text \<open>
  The C type \<^verbatim>\<open>float\<close> of \<^verbatim>\<open>downsampled_buffer\<close> and of the argument of
  \<^verbatim>\<open>AHRS_ADC_SetFIRCoefficients\<close> is IEEE-754 binary32. A value is a sign together
  with a non-negative rational magnitude (so that the two zeros stay apart), an
  infinity with its sign, or a NaN. Every operation rounds to nearest, ties to even,
  with 24 significant bits, exponents from -126 to 127 and gradual underflow.
\<close>

datatype f32 = F32 bool rat | F32_Inf bool | F32_NaN

definition pow2 :: "int \<Rightarrow> rat" where
  "pow2 e = (if 0 \<le> e then 2 ^ nat e else 1 / 2 ^ nat (- e))"

definition round_ne :: "rat \<Rightarrow> int" where
  "round_ne x = (let fl = \<lfloor>x\<rfloor>; r = x - of_int fl in
     if r < 1 / 2 then fl else if 1 / 2 < r then fl + 1
     else if even fl then fl else fl + 1)"

text \<open>The binary exponent of a positive rational: the \<open>e\<close> with \<open>2^e \<le> m < 2^(e+1)\<close>.\<close>

definition ilog2 :: "rat \<Rightarrow> int" where
  "ilog2 m = (let (p, q) = quotient_of m; e0 = bitlen p - bitlen q in
     if pow2 e0 \<le> m then e0 else e0 - 1)"

definition f32_round :: "bool \<Rightarrow> rat \<Rightarrow> f32" where
  "f32_round sg m =
     (if m = 0 then F32 sg 0
      else let q = max (ilog2 m) (- 126) - 23;
               r = of_int (round_ne (m / pow2 q)) * pow2 q
           in if pow2 128 \<le> r then F32_Inf sg else F32 sg r)"

text \<open>The conversion \<^verbatim>\<open>(float)i\<close> of an integer.\<close>

definition f32_of_int :: "int \<Rightarrow> f32" where
  "f32_of_int i = f32_round (i < 0) (of_int \<bar>i\<bar>)"

text \<open>The division \<^verbatim>\<open>x / y\<close> on \<^verbatim>\<open>float\<close>.\<close>

fun f32_div :: "f32 \<Rightarrow> f32 \<Rightarrow> f32" where
  "f32_div F32_NaN y = F32_NaN"
| "f32_div x F32_NaN = F32_NaN"
| "f32_div (F32_Inf s) (F32_Inf t) = F32_NaN"
| "f32_div (F32_Inf s) (F32 t b) = F32_Inf (s \<noteq> t)"
| "f32_div (F32 s a) (F32_Inf t) = F32 (s \<noteq> t) 0"
| "f32_div (F32 s a) (F32 t b) =
     (if b = 0 then (if a = 0 then F32_NaN else F32_Inf (s \<noteq> t))
      else f32_round (s \<noteq> t) (a / b))"

section \<open>Faults\<close>

text \<open>
  Where C gives an operation no result, the model returns a fault: an access outside
  an array carries the offending index, \<open>NullPointer\<close> is a read through
  \<^verbatim>\<open>valid_data_buffer\<close> while it is still \<^verbatim>\<open>NULL\<close>, \<open>FloatToInt\<close> is a \<^verbatim>\<open>float\<close>
  whose integral part does not fit \<^verbatim>\<open>int16_t\<close>, and \<open>LoopNeverExits\<close> is the
  \<^verbatim>\<open>uint16_t\<close> channel counter wrapping to 0 below its bound. The one exception is
  the signed addition into the 32-bit accumulator of the filter, which wraps.
\<close>

datatype fault =
    NullPointer
  | RawIndex nat
  | CoeffIndex int
  | DownsampledIndex nat
  | FilterIndex nat
  | FloatToInt
  | LoopNeverExits

section \<open>Constants of the build and the module's state\<close>

text \<open>
  The macros come from headers outside the sources at hand, so they are parameters:
  \<^verbatim>\<open>PIOS_ADC_NUM_CHANNELS\<close> (channels per acquisition round), \<^verbatim>\<open>PIOS_ADC_NUM_PINS\<close>
  (length of \<^verbatim>\<open>downsampled_buffer\<close>), \<^verbatim>\<open>MAX_OVERSAMPLING\<close> (length of
  \<^verbatim>\<open>adc_config.fir_coeffs\<close>) and \<^verbatim>\<open>MAX_SAMPLES\<close> (length of \<^verbatim>\<open>raw_data_buffer\<close>).
\<close>

record build =
  PIOS_ADC_NUM_CHANNELS :: nat
  PIOS_ADC_NUM_PINS :: nat
  MAX_OVERSAMPLING :: nat
  MAX_SAMPLES :: nat

text \<open>
  The flags of DMA1 channel 1 that the handler names: the generic one, transfer
  complete and half transfer. The flags that are pending are a set.
\<close>

datatype dma_flag = DMA1_FLAG_GL1 | DMA1_IT_TC1 | DMA1_IT_HT1

text \<open>
  The file-scope variables. The three members of \<^verbatim>\<open>adc_config\<close> are fields of the
  state under their own names. \<^verbatim>\<open>valid_data_buffer\<close> points into \<^verbatim>\<open>raw_data_buffer\<close>:
  it is the index of the element it points to, or \<open>None\<close> for \<^verbatim>\<open>NULL\<close>. The callback
  is foreign code that receives the address of \<^verbatim>\<open>downsampled_buffer\<close>: it is a function
  of the buffer's contents on the consumer's own state \<open>consumer\<close>, and it leaves the
  variables of this module alone. \<open>DMA_BufferSize\<close> is the transfer length programmed
  by \<^verbatim>\<open>AHRS_ADC_Config\<close>, in 32-bit words.
\<close>

record 'e adc_state =
  raw_data_buffer :: "16 word list"
  valid_data_buffer :: "nat option"
  adc_oversample :: "8 word"
  fir_coeffs :: "16 word list"
  downsampled_buffer :: "f32 list"
  callback_function :: "(f32 list \<Rightarrow> 'e \<Rightarrow> 'e) option"
  consumer :: 'e
  dma_flags :: "dma_flag set"
  DMA_BufferSize :: "32 word"

text \<open>The variables as the C start-up code leaves them: zero-initialised.\<close>

definition adc_init :: "build \<Rightarrow> 'e \<Rightarrow> 'e adc_state" where
  "adc_init b e =
     \<lparr> raw_data_buffer = replicate (MAX_SAMPLES b) 0,
       valid_data_buffer = None,
       adc_oversample = 0,
       fir_coeffs = replicate (MAX_OVERSAMPLING b) 0,
       downsampled_buffer = replicate (PIOS_ADC_NUM_PINS b) (F32 False 0),
       callback_function = None,
       consumer = e,
       dma_flags = {},
       DMA_BufferSize = 0 \<rparr>"

section \<open>The decimation filter\<close>

text \<open>
  With \<^verbatim>\<open>valid_data_buffer\<close> equal to \<^verbatim>\<open>&raw_data_buffer[off]\<close>, the element of
  \<^verbatim>\<open>raw_data_buffer\<close> that
  \<^verbatim>\<open>valid_data_buffer[chan + sample * PIOS_ADC_NUM_CHANNELS]\<close> denotes.
\<close>

definition raw_index :: "build \<Rightarrow> nat \<Rightarrow> nat \<Rightarrow> nat \<Rightarrow> nat" where
  "raw_index b off chan sample = off + (chan + sample * PIOS_ADC_NUM_CHANNELS b)"

text \<open>
  The inner loop of \<^verbatim>\<open>AHRS_ADC_downsample_data\<close>:
  \<^verbatim>\<open>for (sample = 0; sample < adc_config.adc_oversample; sample++)
      sum += (int32_t)adc_config.valid_data_buffer[chan + sample * PIOS_ADC_NUM_CHANNELS]
             * adc_config.fir_coeffs[sample];\<close>
  Both factors are sign-extended to 32 bits, so the product cannot overflow. The
  addition into \<^verbatim>\<open>int32_t sum\<close> (here \<open>acc\<close>) can: C leaves that undefined, and the
  model does what the target's addition does, it wraps in two's complement.
\<close>

function sample_loop :: "build \<Rightarrow> 'e adc_state \<Rightarrow> nat \<Rightarrow> nat \<Rightarrow> 32 word \<Rightarrow> fault + 32 word" where
  "sample_loop b s chan sample acc =
     (if sample < unat (adc_oversample s) then
        (case valid_data_buffer s of
           None \<Rightarrow> Inl NullPointer
         | Some off \<Rightarrow>
             if length (raw_data_buffer s) \<le> raw_index b off chan sample
             then Inl (RawIndex (raw_index b off chan sample))
             else if length (fir_coeffs s) \<le> sample then Inl (CoeffIndex (int sample))
             else sample_loop b s chan (Suc sample)
                    (acc + scast (raw_data_buffer s ! raw_index b off chan sample)
                           * scast (fir_coeffs s ! sample)))
      else Inr acc)"
  by pat_completeness auto
termination
  by (relation "measure (\<lambda>(b, s, chan, sample, acc). unat (adc_oversample s) - sample)") auto

declare sample_loop.simps [simp del]

text \<open>
  The outer loop:
  \<^verbatim>\<open>for (chan = 0; chan < PIOS_ADC_NUM_CHANNELS; chan++) {
      register int32_t sum = 0;
      ...
      downsampled_buffer[chan] = (float)sum / adc_config.fir_coeffs[adc_config.adc_oversample];
  }\<close>
  The divisor is an \<^verbatim>\<open>int16_t\<close>, converted to \<^verbatim>\<open>float\<close> for the division. The counter is a
  \<^verbatim>\<open>uint16_t\<close>: incremented at 65535 it is 0 again, and the loop starts over.
\<close>

function chan_loop :: "build \<Rightarrow> 'e adc_state \<Rightarrow> nat \<Rightarrow> fault + 'e adc_state" where
  "chan_loop b s chan =
     (if chan < PIOS_ADC_NUM_CHANNELS b then
        (case sample_loop b s chan 0 0 of
           Inl e \<Rightarrow> Inl e
         | Inr acc \<Rightarrow>
             if length (fir_coeffs s) \<le> unat (adc_oversample s)
             then Inl (CoeffIndex (int (unat (adc_oversample s))))
             else if length (downsampled_buffer s) \<le> chan then Inl (DownsampledIndex chan)
             else if chan = 65535 then Inl LoopNeverExits
             else chan_loop b
                    (s\<lparr>downsampled_buffer := (downsampled_buffer s)
                         [chan := f32_div (f32_of_int (sint acc))
                                    (f32_of_int (sint (fir_coeffs s ! unat (adc_oversample s))))]\<rparr>)
                    (Suc chan))
      else Inr s)"
  by pat_completeness auto
termination
  by (relation "measure (\<lambda>(b, s, chan). PIOS_ADC_NUM_CHANNELS b - chan)") auto

declare chan_loop.simps [simp del]

text \<open>
  \<^verbatim>\<open>if (callback_function) callback_function(downsampled_buffer);\<close>
\<close>

definition AHRS_ADC_downsample_data :: "build \<Rightarrow> 'e adc_state \<Rightarrow> fault + 'e adc_state" where
  "AHRS_ADC_downsample_data b s =
     (case chan_loop b s 0 of
        Inl e \<Rightarrow> Inl e
      | Inr s' \<Rightarrow>
          (case callback_function s' of
             None \<Rightarrow> Inr s'
           | Some cb \<Rightarrow> Inr (s'\<lparr>consumer := cb (downsampled_buffer s') (consumer s')\<rparr>)))"

section \<open>The interrupt handler\<close>

text \<open>
  Modelled from the spec: \<^verbatim>\<open>DMA_GetFlagStatus\<close> and \<^verbatim>\<open>DMA_ClearFlag\<close> belong to the
  peripheral library, which is not among the sources; the spec describes them as
  testing and clearing one completion signal, or the generic error flag of the
  transfer engine.
\<close>

definition DMA_GetFlagStatus :: "dma_flag \<Rightarrow> 'e adc_state \<Rightarrow> bool" where
  "DMA_GetFlagStatus fl s \<longleftrightarrow> fl \<in> dma_flags s"

definition DMA_ClearFlag :: "dma_flag \<Rightarrow> 'e adc_state \<Rightarrow> 'e adc_state" where
  "DMA_ClearFlag fl s = s\<lparr>dma_flags := dma_flags s - {fl}\<rparr>"

text \<open>
  \<^verbatim>\<open>AHRS_ADC_DMA_Handler\<close>. The full-transfer flag is tested first. The pointer
  \<^verbatim>\<open>&raw_data_buffer[k * PIOS_ADC_NUM_CHANNELS * adc_config.adc_oversample]\<close> is kept as
  its index; whether it lies in the array shows when the filter reads through it.
\<close>

definition AHRS_ADC_DMA_Handler :: "build \<Rightarrow> 'e adc_state \<Rightarrow> fault + 'e adc_state" where
  "AHRS_ADC_DMA_Handler b s =
     (if DMA_GetFlagStatus DMA1_IT_TC1 s then
        AHRS_ADC_downsample_data b
          (DMA_ClearFlag DMA1_IT_TC1
             (s\<lparr>valid_data_buffer :=
                  Some (1 * PIOS_ADC_NUM_CHANNELS b * unat (adc_oversample s))\<rparr>))
      else if DMA_GetFlagStatus DMA1_IT_HT1 s then
        AHRS_ADC_downsample_data b
          (DMA_ClearFlag DMA1_IT_HT1
             (s\<lparr>valid_data_buffer :=
                  Some (0 * PIOS_ADC_NUM_CHANNELS b * unat (adc_oversample s))\<rparr>))
      else Inr (DMA_ClearFlag DMA1_FLAG_GL1 s))"

section \<open>Configuration and accessors\<close>

text \<open>
  The end of \<^verbatim>\<open>AHRS_ADC_Config\<close>:
  \<^verbatim>\<open>for (int i = 0; i < adc_oversample; i++)
      adc_config.fir_coeffs[i] = 1;\<close>
  where \<^verbatim>\<open>adc_oversample\<close> is the \<^verbatim>\<open>int32_t\<close> parameter, here its value \<open>ov\<close>.
\<close>

function boxcar_loop :: "int \<Rightarrow> 'e adc_state \<Rightarrow> nat \<Rightarrow> fault + 'e adc_state" where
  "boxcar_loop ov s i =
     (if int i < ov then
        (if length (fir_coeffs s) \<le> i then Inl (CoeffIndex (int i))
         else boxcar_loop ov (s\<lparr>fir_coeffs := (fir_coeffs s)[i := 1]\<rparr>) (Suc i))
      else Inr s)"
  by pat_completeness auto
termination
  by (relation "measure (\<lambda>(ov, s, i). nat (ov - int i))") auto

declare boxcar_loop.simps [simp del]

text \<open>
  \<^verbatim>\<open>AHRS_ADC_Config\<close>. The parameter is an \<^verbatim>\<open>int32_t\<close>; the member it is stored in is a
  \<^verbatim>\<open>uint8_t\<close>, and the divisor slot an \<^verbatim>\<open>int16_t\<close>, so both stores truncate. The calls
  into the peripheral library program the converter, the transfer engine and the
  interrupt controller; of these the state keeps the transfer length
  \<^verbatim>\<open>(PIOS_ADC_NUM_CHANNELS * adc_oversample * 2) >> 1\<close>. The two calibration waits
  poll the converter and are taken to end. The function returns 1.
\<close>

definition AHRS_ADC_Config :: "build \<Rightarrow> 32 word \<Rightarrow> 'e adc_state \<Rightarrow> fault + ('e adc_state \<times> 8 word)" where
  "AHRS_ADC_Config b ov s =
     (let s1 = s\<lparr>adc_oversample := ucast ov\<rparr>;
          s2 = s1\<lparr>DMA_BufferSize :=
                    signed_drop_bit 1 (word_of_nat (PIOS_ADC_NUM_CHANNELS b) * ov * 2)\<rparr>
      in case boxcar_loop (sint ov) s2 0 of
           Inl e \<Rightarrow> Inl e
         | Inr s3 \<Rightarrow>
             if sint ov < 0 \<or> int (length (fir_coeffs s3)) \<le> sint ov
             then Inl (CoeffIndex (sint ov))
             else Inr (s3\<lparr>fir_coeffs := (fir_coeffs s3)[nat (sint ov) := ucast ov]\<rparr>, 1))"

definition AHRS_ADC_SetCallback :: "(f32 list \<Rightarrow> 'e \<Rightarrow> 'e) option \<Rightarrow> 'e adc_state \<Rightarrow> 'e adc_state" where
  "AHRS_ADC_SetCallback new_function s = s\<lparr>callback_function := new_function\<rparr>"

definition AHRS_ADC_GetBuffer :: "'e adc_state \<Rightarrow> f32 list" where
  "AHRS_ADC_GetBuffer s = downsampled_buffer s"

definition AHRS_ADC_GetRawBuffer :: "'e adc_state \<Rightarrow> nat option" where
  "AHRS_ADC_GetRawBuffer s = valid_data_buffer s"

definition AHRS_ADC_GetOverSampling :: "'e adc_state \<Rightarrow> 8 word" where
  "AHRS_ADC_GetOverSampling s = adc_oversample s"

text \<open>
  The conversion of a \<^verbatim>\<open>float\<close> to \<^verbatim>\<open>int16_t\<close> in an assignment: the fractional part
  is discarded; the result is undefined when what is left does not fit.
\<close>

definition f32_to_int16 :: "f32 \<Rightarrow> fault + 16 word" where
  "f32_to_int16 x =
     (case x of
        F32 sg m \<Rightarrow>
          (let t = (if sg then - \<lfloor>m\<rfloor> else \<lfloor>m\<rfloor>)
           in if - 32768 \<le> t \<and> t \<le> 32767 then Inr (word_of_int t) else Inl FloatToInt)
      | F32_Inf sg \<Rightarrow> Inl FloatToInt
      | F32_NaN \<Rightarrow> Inl FloatToInt)"

text \<open>
  \<^verbatim>\<open>AHRS_ADC_SetFIRCoefficients\<close>:
  \<^verbatim>\<open>for(int i = 0; i <= adc_config.adc_oversample; i++)
      adc_config.fir_coeffs[i] = new_filter[i];\<close>
  The argument is the caller's array; reading past its end is a fault too.
\<close>

function set_coeffs_loop :: "f32 list \<Rightarrow> 'e adc_state \<Rightarrow> nat \<Rightarrow> fault + 'e adc_state" where
  "set_coeffs_loop new_filter s i =
     (if i \<le> unat (adc_oversample s) then
        (if length new_filter \<le> i then Inl (FilterIndex i)
         else case f32_to_int16 (new_filter ! i) of
                Inl e \<Rightarrow> Inl e
              | Inr v \<Rightarrow>
                  if length (fir_coeffs s) \<le> i then Inl (CoeffIndex (int i))
                  else set_coeffs_loop new_filter (s\<lparr>fir_coeffs := (fir_coeffs s)[i := v]\<rparr>) (Suc i))
      else Inr s)"
  by pat_completeness auto
termination
  by (relation "measure (\<lambda>(new_filter, s, i). Suc (unat (adc_oversample s)) - i)") auto

declare set_coeffs_loop.simps [simp del]

definition AHRS_ADC_SetFIRCoefficients :: "f32 list \<Rightarrow> 'e adc_state \<Rightarrow> fault + 'e adc_state" where
  "AHRS_ADC_SetFIRCoefficients new_filter s = set_coeffs_loop new_filter s 0"

section \<open>The transfer engine as the handler sees it\<close>

text \<open>
  Modelled from the spec: the transfer engine is hardware. The spec has it fill the
  raw buffer in the background and raise a half-transfer or a full-transfer completion
  signal, or an unexpected one; each signal enters \<^verbatim>\<open>DMA1_Channel1_IRQHandler\<close>, an alias
  of \<^verbatim>\<open>AHRS_ADC_DMA_Handler\<close>. An event is the signal together with the samples that
  stand in the raw buffer when the interrupt is taken.
\<close>

datatype signal = HalfTransfer | FullTransfer | TransferError

fun signal_flag :: "signal \<Rightarrow> dma_flag" where
  "signal_flag HalfTransfer = DMA1_IT_HT1"
| "signal_flag FullTransfer = DMA1_IT_TC1"
| "signal_flag TransferError = DMA1_FLAG_GL1"

record dma_event =
  ev_signal :: signal
  ev_data :: "nat \<Rightarrow> 16 word"

definition raise_signal :: "dma_event \<Rightarrow> 'e adc_state \<Rightarrow> 'e adc_state" where
  "raise_signal ev s =
     s\<lparr>raw_data_buffer := map (ev_data ev) [0..<length (raw_data_buffer s)],
       dma_flags := insert (signal_flag (ev_signal ev)) (dma_flags s)\<rparr>"

definition deliver :: "build \<Rightarrow> dma_event \<Rightarrow> 'e adc_state \<Rightarrow> fault + 'e adc_state" where
  "deliver b ev s = AHRS_ADC_DMA_Handler b (raise_signal ev s)"

text \<open>The states the handler leaves, one for each event of a run, in order.\<close>

fun trace :: "build \<Rightarrow> 'e adc_state \<Rightarrow> dma_event list \<Rightarrow> fault + 'e adc_state list" where
  "trace b s [] = Inr []"
| "trace b s (ev # evs) =
     (case deliver b ev s of
        Inl e \<Rightarrow> Inl e
      | Inr s1 \<Rightarrow> (case trace b s1 evs of Inl e \<Rightarrow> Inl e | Inr ss \<Rightarrow> Inr (s1 # ss)))"

fun alternating :: "signal list \<Rightarrow> bool" where
  "alternating [] = True"
| "alternating [x] = (x = HalfTransfer \<or> x = FullTransfer)"
| "alternating (x # y # r) =
     ((x = HalfTransfer \<and> y = FullTransfer \<or> x = FullTransfer \<and> y = HalfTransfer)
      \<and> alternating (y # r))"

section \<open>What the code is to compute\<close>

text \<open>
  The weighted sum as the specification writes it, over the integers:
  \<open>\<Sum>\<^sub>k raw[c + k\<cdot>num_channels] \<times> coeff[k]\<close> for \<open>k\<close> below the oversample factor, on the
  half that starts at \<open>off\<close>.
\<close>

definition tap :: "build \<Rightarrow> 'e adc_state \<Rightarrow> nat \<Rightarrow> nat \<Rightarrow> nat \<Rightarrow> int" where
  "tap b s off chan k =
     sint (raw_data_buffer s ! raw_index b off chan k) * sint (fir_coeffs s ! k)"

definition weighted_sum :: "build \<Rightarrow> 'e adc_state \<Rightarrow> nat \<Rightarrow> nat \<Rightarrow> int" where
  "weighted_sum b s off chan = (\<Sum>k\<leftarrow>[0..<unat (adc_oversample s)]. tap b s off chan k)"

text \<open>The value of a 32-bit accumulator that holds the integer \<open>i\<close> modulo \<open>2^32\<close>.\<close>

definition int32 :: "int \<Rightarrow> int" where
  "int32 i = sint (word_of_int i :: 32 word)"

definition divisor :: "'e adc_state \<Rightarrow> int" where
  "divisor s = sint (fir_coeffs s ! unat (adc_oversample s))"

definition filter_out :: "build \<Rightarrow> 'e adc_state \<Rightarrow> nat \<Rightarrow> nat \<Rightarrow> f32" where
  "filter_out b s off chan =
     f32_div (f32_of_int (int32 (weighted_sum b s off chan))) (f32_of_int (divisor s))"

definition filtered :: "build \<Rightarrow> 'e adc_state \<Rightarrow> nat \<Rightarrow> f32 list" where
  "filtered b s off =
     map (filter_out b s off) [0..<PIOS_ADC_NUM_CHANNELS b]
     @ drop (PIOS_ADC_NUM_CHANNELS b) (downsampled_buffer s)"

text \<open>
  The elements a pass touches exist: the channel counter stays below its wrap, every
  channel has a slot in \<^verbatim>\<open>downsampled_buffer\<close>, the divisor slot lies in the coefficient
  table, and the half that starts at \<open>off\<close> lies in \<^verbatim>\<open>raw_data_buffer\<close>.
\<close>

definition filter_in_bounds :: "build \<Rightarrow> 'e adc_state \<Rightarrow> nat \<Rightarrow> bool" where
  "filter_in_bounds b s off \<longleftrightarrow>
     PIOS_ADC_NUM_CHANNELS b \<le> 65535 \<and>
     PIOS_ADC_NUM_CHANNELS b \<le> length (downsampled_buffer s) \<and>
     unat (adc_oversample s) < length (fir_coeffs s) \<and>
     off + PIOS_ADC_NUM_CHANNELS b * unat (adc_oversample s) \<le> length (raw_data_buffer s)"

text \<open>The half of the raw buffer that \<^verbatim>\<open>valid_data_buffer\<close> publishes, as a set of indices.\<close>

definition valid_half :: "build \<Rightarrow> 'e adc_state \<Rightarrow> nat set" where
  "valid_half b s =
     (case valid_data_buffer s of
        None \<Rightarrow> {}
      | Some off \<Rightarrow> {off ..< off + PIOS_ADC_NUM_CHANNELS b * unat (adc_oversample s)})"

text \<open>
  The elements both halves need exist: this is \<open>filter_in_bounds\<close> for the second half,
  which starts where the first ends.
\<close>

definition handler_in_bounds :: "build \<Rightarrow> 'e adc_state \<Rightarrow> bool" where
  "handler_in_bounds b s \<longleftrightarrow>
     filter_in_bounds b s (PIOS_ADC_NUM_CHANNELS b * unat (adc_oversample s))"

text \<open>
  The state a pass over the half at \<open>off\<close> is to leave: the pointer on that half, the
  filtered values in \<^verbatim>\<open>downsampled_buffer\<close>, and the callback, if one is registered,
  applied once to them.
\<close>

definition pass_result :: "build \<Rightarrow> 'e adc_state \<Rightarrow> nat \<Rightarrow> 'e adc_state" where
  "pass_result b s off =
     (case callback_function s of
        None \<Rightarrow> s\<lparr>valid_data_buffer := Some off, downsampled_buffer := filtered b s off\<rparr>
      | Some cb \<Rightarrow> s\<lparr>valid_data_buffer := Some off, downsampled_buffer := filtered b s off,
                     consumer := cb (filtered b s off) (consumer s)\<rparr>)"

text \<open>
  A \<^verbatim>\<open>float\<close> with its fractional part discarded, and whether what is left is an
  \<^verbatim>\<open>int16_t\<close>.
\<close>

definition truncated :: "f32 \<Rightarrow> int" where
  "truncated x = (case x of F32 sg m \<Rightarrow> (if sg then - \<lfloor>m\<rfloor> else \<lfloor>m\<rfloor>) | F32_Inf sg \<Rightarrow> 0 | F32_NaN \<Rightarrow> 0)"

definition fits_int16 :: "f32 \<Rightarrow> bool" where
  "fits_int16 x =
     (case x of F32 sg m \<Rightarrow> - 32768 \<le> truncated x \<and> truncated x \<le> 32767
      | F32_Inf sg \<Rightarrow> False | F32_NaN \<Rightarrow> False)"

section \<open>Concrete configurations\<close>

text \<open>
  Two channels, three samples for each, and the averaging coefficients with their
  divisor: the first half of the raw buffer holds the samples 10, 20, 30 of channel 0
  interleaved with 5, 5, 5 of channel 1, the second half 40, 50, 60 and 8, 8, 8.
  \<open>ex_overflow\<close> has the largest sample and the largest weight everywhere on
  channel 0.
\<close>

definition ex_build :: build where
  "ex_build = \<lparr> PIOS_ADC_NUM_CHANNELS = 2, PIOS_ADC_NUM_PINS = 2, MAX_OVERSAMPLING = 4, MAX_SAMPLES = 12 \<rparr>"

definition ex_state :: "nat adc_state" where
  "ex_state =
     \<lparr> raw_data_buffer = [10, 5, 20, 5, 30, 5, 40, 8, 50, 8, 60, 8],
       valid_data_buffer = Some 0,
       adc_oversample = 3,
       fir_coeffs = [1, 1, 1, 3],
       downsampled_buffer = [F32 False 0, F32 False 0],
       callback_function = None,
       consumer = 0,
       dma_flags = {},
       DMA_BufferSize = 6 \<rparr>"

definition ex_overflow :: "nat adc_state" where
  "ex_overflow =
     \<lparr> raw_data_buffer = [32767, 5, 32767, 5, 32767, 5, 0, 0, 0, 0, 0, 0],
       valid_data_buffer = Some 0,
       adc_oversample = 3,
       fir_coeffs = [32767, 32767, 32767, 3],
       downsampled_buffer = [F32 False 0, F32 False 0],
       callback_function = None,
       consumer = 0,
       dma_flags = {},
       DMA_BufferSize = 6 \<rparr>"

text \<open>The example with one signal pending and the pointer not yet set.\<close>

definition ex_half_pending :: "nat adc_state" where
  "ex_half_pending = ex_state\<lparr>valid_data_buffer := None, dma_flags := {DMA1_IT_HT1}\<rparr>"

definition ex_full_pending :: "nat adc_state" where
  "ex_full_pending = ex_state\<lparr>valid_data_buffer := None, dma_flags := {DMA1_IT_TC1}\<rparr>"

definition ex_error_pending :: "nat adc_state" where
  "ex_error_pending = ex_state\<lparr>dma_flags := {DMA1_FLAG_GL1}\<rparr>"

text \<open>Three signals in a row, and the example with a callback that counts its calls.\<close>

definition ex_events :: "dma_event list" where
  "ex_events =
     [\<lparr>ev_signal = HalfTransfer, ev_data = nth [10, 5, 20, 5, 30, 5, 40, 8, 50, 8, 60, 8]\<rparr>,
      \<lparr>ev_signal = FullTransfer, ev_data = nth [11, 6, 21, 6, 31, 6, 40, 8, 50, 8, 60, 8]\<rparr>,
      \<lparr>ev_signal = HalfTransfer, ev_data = nth [11, 6, 21, 6, 31, 6, 41, 9, 51, 9, 61, 9]\<rparr>]"

definition ex_counting :: "nat adc_state" where
  "ex_counting = AHRS_ADC_SetCallback (Some (\<lambda>buf n. Suc n)) ex_state"

text \<open>The example build configured for two samples per channel, and for three.\<close>

definition ex_configured2 :: "nat adc_state" where
  "ex_configured2 =
     \<lparr> raw_data_buffer = [0, 0, 0, 0, 0, 0, 0, 0, 0, 0, 0, 0],
       valid_data_buffer = None,
       adc_oversample = 2,
       fir_coeffs = [1, 1, 2, 0],
       downsampled_buffer = [F32 False 0, F32 False 0],
       callback_function = None,
       consumer = 0,
       dma_flags = {},
       DMA_BufferSize = 4 \<rparr>"

definition ex_configured3 :: "nat adc_state" where
  "ex_configured3 =
     \<lparr> raw_data_buffer = [0, 0, 0, 0, 0, 0, 0, 0, 0, 0, 0, 0],
       valid_data_buffer = None,
       adc_oversample = 3,
       fir_coeffs = [1, 1, 1, 3],
       downsampled_buffer = [F32 False 0, F32 False 0],
       callback_function = None,
       consumer = 0,
       dma_flags = {},
       DMA_BufferSize = 6 \<rparr>"

text \<open>Weights with fractional parts: 1.5, 2.75, 1.0 and the divisor 4.5.\<close>

definition ex_filter :: "f32 list" where
  "ex_filter = [F32 False (3 / 2), F32 False (11 / 4), F32 False 1, F32 False (9 / 2)]"

text \<open>The example build with the member \<^verbatim>\<open>adc_oversample\<close> at the length of the table.\<close>

definition ex_full_table :: "nat adc_state" where
  "ex_full_table = ex_state\<lparr>adc_oversample := 4\<rparr>"

definition ex_filter5 :: "f32 list" where
  "ex_filter5 = [F32 False 1, F32 False 1, F32 False 1, F32 False 1, F32 False 4]"

text \<open>The example with the last element of the raw buffer missing, full transfer pending.\<close>

definition ex_short :: "nat adc_state" where
  "ex_short =
     ex_state\<lparr>raw_data_buffer := [10, 5, 20, 5, 30, 5, 40, 8, 50, 8, 60],
              valid_data_buffer := None, dma_flags := {DMA1_IT_TC1}\<rparr>"

section \<open>The loops in closed form\<close>

lemma raw_index_bound:
  assumes "chan < PIOS_ADC_NUM_CHANNELS b" "k < f"
  shows "raw_index b off chan k < off + PIOS_ADC_NUM_CHANNELS b * f"
proof -
  let ?n = "PIOS_ADC_NUM_CHANNELS b"
  have "chan + k * ?n < ?n + k * ?n" using assms(1) by simp
  also have "\<dots> = Suc k * ?n" by simp
  also have "\<dots> \<le> f * ?n" using assms(2) by (intro mult_le_mono1) simp
  finally show ?thesis by (simp add: raw_index_def mult.commute)
qed

lemma word_of_tap:
  "(word_of_int (tap b s off chan k) :: 32 word) =
     scast (raw_data_buffer s ! raw_index b off chan k) * scast (fir_coeffs s ! k)"
  by (simp add: tap_def)

lemma sample_loop_ok:
  assumes "valid_data_buffer s = Some off" "chan < PIOS_ADC_NUM_CHANNELS b"
    "off + PIOS_ADC_NUM_CHANNELS b * unat (adc_oversample s) \<le> length (raw_data_buffer s)"
    "unat (adc_oversample s) \<le> length (fir_coeffs s)"
  shows "sample_loop b s chan sample acc =
           Inr (acc + word_of_int (\<Sum>k\<leftarrow>[sample..<unat (adc_oversample s)]. tap b s off chan k))"
  using assms
proof (induction b s chan sample acc rule: sample_loop.induct)
  case (1 b s chan sample acc)
  show ?case
  proof (cases "sample < unat (adc_oversample s)")
    case True
    have inb: "raw_index b off chan sample < length (raw_data_buffer s)"
      using raw_index_bound [OF "1.prems"(2) True, of off] "1.prems"(3) by simp
    have inc: "sample < length (fir_coeffs s)" using True "1.prems"(4) by simp
    have step: "sample_loop b s chan sample acc =
        sample_loop b s chan (Suc sample)
          (acc + scast (raw_data_buffer s ! raw_index b off chan sample)
                 * scast (fir_coeffs s ! sample))"
      using True inb inc "1.prems"(1) by (subst sample_loop.simps) simp
    have ih: "sample_loop b s chan (Suc sample)
          (acc + scast (raw_data_buffer s ! raw_index b off chan sample)
                 * scast (fir_coeffs s ! sample)) =
        Inr ((acc + scast (raw_data_buffer s ! raw_index b off chan sample)
                 * scast (fir_coeffs s ! sample))
             + word_of_int (\<Sum>k\<leftarrow>[Suc sample..<unat (adc_oversample s)]. tap b s off chan k))"
      using "1.IH" [OF True "1.prems"(1) _ _ "1.prems"] inb inc by simp
    show ?thesis
      unfolding step ih using True
      by (simp add: upt_conv_Cons word_of_tap)
  next
    case False
    then show ?thesis by (subst sample_loop.simps) simp
  qed
qed

lemma filter_out_downsampled [simp]:
  "filter_out b (s\<lparr>downsampled_buffer := ds\<rparr>) off = filter_out b s off"
  by (rule ext) (simp add: filter_out_def weighted_sum_def tap_def divisor_def)

lemma filter_in_bounds_downsampled [simp]:
  "length ds = length (downsampled_buffer s) \<Longrightarrow>
   filter_in_bounds b (s\<lparr>downsampled_buffer := ds\<rparr>) off = filter_in_bounds b s off"
  by (simp add: filter_in_bounds_def)

lemma sample_loop_filter:
  assumes "valid_data_buffer s = Some off" "filter_in_bounds b s off" "chan < PIOS_ADC_NUM_CHANNELS b"
  shows "sample_loop b s chan 0 0 = Inr (word_of_int (weighted_sum b s off chan))"
  using sample_loop_ok [of s off chan b 0 0] assms
  by (simp add: filter_in_bounds_def weighted_sum_def)

lemma chan_loop_ok:
  assumes "valid_data_buffer s = Some off" "filter_in_bounds b s off" "chan \<le> PIOS_ADC_NUM_CHANNELS b"
  shows "chan_loop b s chan =
           Inr (s\<lparr>downsampled_buffer :=
                  take chan (downsampled_buffer s)
                  @ map (filter_out b s off) [chan..<PIOS_ADC_NUM_CHANNELS b]
                  @ drop (PIOS_ADC_NUM_CHANNELS b) (downsampled_buffer s)\<rparr>)"
  using assms
proof (induction b s chan rule: chan_loop.induct)
  case (1 b s chan)
  let ?n = "PIOS_ADC_NUM_CHANNELS b"
  let ?ds = "downsampled_buffer s"
  show ?case
  proof (cases "chan < ?n")
    case False
    with "1.prems" have "chan = ?n" by simp
    then show ?thesis by (subst chan_loop.simps) simp
  next
    case True
    let ?v = "filter_out b s off chan"
    let ?s1 = "s\<lparr>downsampled_buffer := ?ds[chan := ?v]\<rparr>"
    have sl: "sample_loop b s chan 0 0 = Inr (word_of_int (weighted_sum b s off chan))"
      using sample_loop_filter [OF "1.prems"(1,2) True] .
    have c1: "\<not> length (fir_coeffs s) \<le> unat (adc_oversample s)"
      and c2: "\<not> length ?ds \<le> chan" and c3: "chan \<noteq> 65535"
      using "1.prems"(2) True by (auto simp: filter_in_bounds_def)
    have step: "chan_loop b s chan = chan_loop b ?s1 (Suc chan)"
      using True sl c1 c2 c3
      by (subst chan_loop.simps) (simp add: filter_out_def int32_def divisor_def)
    have ih: "chan_loop b ?s1 (Suc chan) =
        Inr (?s1\<lparr>downsampled_buffer :=
               take (Suc chan) (downsampled_buffer ?s1)
               @ map (filter_out b ?s1 off) [Suc chan..<?n]
               @ drop ?n (downsampled_buffer ?s1)\<rparr>)"
      using "1.IH" [OF True sl c1 c2 c3] "1.prems" True
      by (simp add: filter_out_def int32_def divisor_def)
    have tk: "take (Suc chan) (?ds[chan := ?v]) = take chan ?ds @ [?v]"
      using c2 by (simp add: take_Suc_conv_app_nth)
    have dr: "drop ?n (?ds[chan := ?v]) = drop ?n ?ds"
      using True by simp
    show ?thesis
      unfolding step ih using True by (simp add: tk dr upt_conv_Cons)
  qed
qed

section \<open>The filter pass\<close>

lemma downsample_ok:
  assumes "valid_data_buffer s = Some off" "filter_in_bounds b s off"
  shows "AHRS_ADC_downsample_data b s =
           Inr (case callback_function s of
                  None \<Rightarrow> s\<lparr>downsampled_buffer := filtered b s off\<rparr>
                | Some cb \<Rightarrow> s\<lparr>downsampled_buffer := filtered b s off,
                               consumer := cb (filtered b s off) (consumer s)\<rparr>)"
  using chan_loop_ok [OF assms, of 0]
  by (simp add: AHRS_ADC_downsample_data_def filtered_def split: option.split)

lemma filtered_nth:
  "c < PIOS_ADC_NUM_CHANNELS b \<Longrightarrow> filtered b s off ! c = filter_out b s off c"
  by (simp add: filtered_def nth_append)

lemma length_filtered:
  "PIOS_ADC_NUM_CHANNELS b \<le> length (downsampled_buffer s) \<Longrightarrow>
   length (filtered b s off) = length (downsampled_buffer s)"
  by (simp add: filtered_def)

lemma int32_id: "- (2 ^ 31) \<le> i \<Longrightarrow> i < 2 ^ 31 \<Longrightarrow> int32 i = i"
  unfolding int32_def by (simp add: signed_of_int signed_take_bit_int_eq_self)


lemma ex_weighted_sum:
  "weighted_sum ex_build ex_state 0 0 = 60" "weighted_sum ex_build ex_state 0 (Suc 0) = 15"
  by (simp_all add: weighted_sum_def tap_def raw_index_def ex_build_def ex_state_def upt_rec)

lemma ex_channels: "PIOS_ADC_NUM_CHANNELS ex_build = 2"
  by (simp add: ex_build_def)

lemma ex_divisor: "divisor ex_state = 3"
  by (simp add: divisor_def ex_state_def)

lemma ex_in_bounds: "filter_in_bounds ex_build ex_state 0"
  by (simp add: filter_in_bounds_def ex_build_def ex_state_def)

lemma ex_quotients:
  "f32_div (f32_of_int 60) (f32_of_int 3) = F32 False 20"
  "f32_div (f32_of_int 15) (f32_of_int 3) = F32 False 5"
  by code_simp+

lemma ex_overflow_sum:
  "weighted_sum ex_build ex_overflow 0 0 = 3221028867"
  "weighted_sum ex_build ex_overflow 0 (Suc 0) = 491505"
  by (simp_all add: weighted_sum_def tap_def raw_index_def ex_build_def ex_overflow_def upt_rec)

lemma ex_overflow_divisor: "divisor ex_overflow = 3"
  by (simp add: divisor_def ex_overflow_def)

lemma ex_overflow_in_bounds: "filter_in_bounds ex_build ex_overflow 0"
  by (simp add: filter_in_bounds_def ex_build_def ex_overflow_def)

lemma ex_overflow_quotients:
  "f32_div (f32_of_int (int32 3221028867)) (f32_of_int 3) = F32 True 357979488"
  "f32_div (f32_of_int 3221028867) (f32_of_int 3) = F32 False 1073676288"
  "f32_div (f32_of_int 491505) (f32_of_int 3) = F32 False 163835"
  by code_simp+


section \<open>The handler\<close>

lemma filtered_cong:
  assumes "raw_data_buffer t = raw_data_buffer s" "fir_coeffs t = fir_coeffs s"
    "adc_oversample t = adc_oversample s" "downsampled_buffer t = downsampled_buffer s"
  shows "filtered b t off = filtered b s off"
  using assms by (simp add: filtered_def filter_out_def weighted_sum_def tap_def divisor_def)

lemma filter_in_bounds_cong:
  assumes "raw_data_buffer t = raw_data_buffer s" "fir_coeffs t = fir_coeffs s"
    "adc_oversample t = adc_oversample s"
    "length (downsampled_buffer t) = length (downsampled_buffer s)"
  shows "filter_in_bounds b t off = filter_in_bounds b s off"
  using assms by (simp add: filter_in_bounds_def)

lemma handler_full:
  assumes "DMA_GetFlagStatus DMA1_IT_TC1 s"
    and "filter_in_bounds b s (PIOS_ADC_NUM_CHANNELS b * unat (adc_oversample s))"
  shows "AHRS_ADC_DMA_Handler b s =
           Inr (pass_result b (DMA_ClearFlag DMA1_IT_TC1 s)
                  (PIOS_ADC_NUM_CHANNELS b * unat (adc_oversample s)))"
proof -
  let ?off = "PIOS_ADC_NUM_CHANNELS b * unat (adc_oversample s)"
  let ?t = "DMA_ClearFlag DMA1_IT_TC1 (s\<lparr>valid_data_buffer := Some (1 * ?off)\<rparr>)"
  have v: "valid_data_buffer ?t = Some ?off" by (simp add: DMA_ClearFlag_def)
  have ib: "filter_in_bounds b ?t ?off"
    using assms(2) by (simp add: filter_in_bounds_def DMA_ClearFlag_def)
  have f: "filtered b ?t ?off = filtered b (DMA_ClearFlag DMA1_IT_TC1 s) ?off"
    by (rule filtered_cong) (simp_all add: DMA_ClearFlag_def)
  have "AHRS_ADC_DMA_Handler b s = AHRS_ADC_downsample_data b ?t"
    using assms(1) by (simp add: AHRS_ADC_DMA_Handler_def mult.assoc)
  also have "\<dots> = Inr (pass_result b (DMA_ClearFlag DMA1_IT_TC1 s) ?off)"
    unfolding downsample_ok [OF v ib] f
    by (simp add: pass_result_def DMA_ClearFlag_def split: option.split)
  finally show ?thesis .
qed

lemma handler_half:
  assumes "\<not> DMA_GetFlagStatus DMA1_IT_TC1 s" "DMA_GetFlagStatus DMA1_IT_HT1 s"
    and "filter_in_bounds b s 0"
  shows "AHRS_ADC_DMA_Handler b s = Inr (pass_result b (DMA_ClearFlag DMA1_IT_HT1 s) 0)"
proof -
  let ?t = "DMA_ClearFlag DMA1_IT_HT1
              (s\<lparr>valid_data_buffer := Some (0 * PIOS_ADC_NUM_CHANNELS b * unat (adc_oversample s))\<rparr>)"
  have v: "valid_data_buffer ?t = Some 0" by (simp add: DMA_ClearFlag_def)
  have ib: "filter_in_bounds b ?t 0"
    using assms(3) by (simp add: filter_in_bounds_def DMA_ClearFlag_def)
  have f: "filtered b ?t 0 = filtered b (DMA_ClearFlag DMA1_IT_HT1 s) 0"
    by (rule filtered_cong) (simp_all add: DMA_ClearFlag_def)
  have "AHRS_ADC_DMA_Handler b s = AHRS_ADC_downsample_data b ?t"
    using assms(1,2) by (simp add: AHRS_ADC_DMA_Handler_def)
  also have "\<dots> = Inr (pass_result b (DMA_ClearFlag DMA1_IT_HT1 s) 0)"
    unfolding downsample_ok [OF v ib] f
    by (simp add: pass_result_def DMA_ClearFlag_def split: option.split)
  finally show ?thesis .
qed

lemma handler_other:
  assumes "\<not> DMA_GetFlagStatus DMA1_IT_TC1 s" "\<not> DMA_GetFlagStatus DMA1_IT_HT1 s"
  shows "AHRS_ADC_DMA_Handler b s = Inr (DMA_ClearFlag DMA1_FLAG_GL1 s)"
  using assms by (simp add: AHRS_ADC_DMA_Handler_def)

lemma pass_result_fields [simp]:
  "valid_data_buffer (pass_result b s off) = Some off"
  "downsampled_buffer (pass_result b s off) = filtered b s off"
  "raw_data_buffer (pass_result b s off) = raw_data_buffer s"
  "fir_coeffs (pass_result b s off) = fir_coeffs s"
  "adc_oversample (pass_result b s off) = adc_oversample s"
  "callback_function (pass_result b s off) = callback_function s"
  "dma_flags (pass_result b s off) = dma_flags s"
  "DMA_BufferSize (pass_result b s off) = DMA_BufferSize s"
  "consumer (pass_result b s off) =
     (case callback_function s of None \<Rightarrow> consumer s
      | Some cb \<Rightarrow> cb (filtered b s off) (consumer s))"
  by (simp_all add: pass_result_def split: option.split)

lemma ClearFlag_fields [simp]:
  "valid_data_buffer (DMA_ClearFlag fl s) = valid_data_buffer s"
  "downsampled_buffer (DMA_ClearFlag fl s) = downsampled_buffer s"
  "raw_data_buffer (DMA_ClearFlag fl s) = raw_data_buffer s"
  "fir_coeffs (DMA_ClearFlag fl s) = fir_coeffs s"
  "adc_oversample (DMA_ClearFlag fl s) = adc_oversample s"
  "callback_function (DMA_ClearFlag fl s) = callback_function s"
  "dma_flags (DMA_ClearFlag fl s) = dma_flags s - {fl}"
  "DMA_BufferSize (DMA_ClearFlag fl s) = DMA_BufferSize s"
  "consumer (DMA_ClearFlag fl s) = consumer s"
  by (simp_all add: DMA_ClearFlag_def)

lemma filtered_ClearFlag [simp]: "filtered b (DMA_ClearFlag fl s) off = filtered b s off"
  by (rule filtered_cong) simp_all

lemma ex_second_half:
  "weighted_sum ex_build ex_state 6 0 = 150" "weighted_sum ex_build ex_state 6 (Suc 0) = 24"
  by (simp_all add: weighted_sum_def tap_def raw_index_def ex_build_def ex_state_def upt_rec)

lemma ex_second_quotients:
  "f32_div (f32_of_int 150) (f32_of_int 3) = F32 False 50"
  "f32_div (f32_of_int 24) (f32_of_int 3) = F32 False 8"
  by code_simp+

lemma ex_upt: "[0..<PIOS_ADC_NUM_CHANNELS ex_build] = [0, Suc 0]"
  by (simp add: ex_build_def upt_rec)

lemma ex_filtered:
  "filtered ex_build ex_state 0 = [F32 False 20, F32 False 5]"
  "filtered ex_build ex_state 6 = [F32 False 50, F32 False 8]"
  by (simp_all add: filtered_def ex_upt filter_out_def ex_weighted_sum ex_second_half ex_divisor
        ex_quotients ex_second_quotients int32_id) (simp_all add: ex_state_def ex_channels)

lemma ex_pending_filtered:
  "filtered ex_build ex_half_pending off = filtered ex_build ex_state off"
  "filtered ex_build ex_full_pending off = filtered ex_build ex_state off"
  by (rule filtered_cong; simp add: ex_half_pending_def ex_full_pending_def)+

lemma ex_pending_in_bounds:
  "filter_in_bounds ex_build ex_half_pending 0"
  "filter_in_bounds ex_build ex_full_pending 6"
  by (simp_all add: filter_in_bounds_def ex_half_pending_def ex_full_pending_def ex_state_def ex_build_def)

section \<open>The filter without a callback\<close>

lemma sample_loop_callback:
  "sample_loop b (s\<lparr>callback_function := x\<rparr>) chan sample acc = sample_loop b s chan sample acc"
proof (induction b s chan sample acc rule: sample_loop.induct)
  case (1 b s chan sample acc)
  show ?case
    by (subst (1 2) sample_loop.simps) (use 1 in \<open>auto split: option.split\<close>)
qed

lemma callback_downsampled_update:
  "s\<lparr>callback_function := x, downsampled_buffer := v\<rparr> =
   s\<lparr>downsampled_buffer := v, callback_function := x\<rparr>"
  by simp

lemma chan_loop_callback:
  "chan_loop b (s\<lparr>callback_function := x\<rparr>) chan =
     map_sum id (\<lambda>t. t\<lparr>callback_function := x\<rparr>) (chan_loop b s chan)"
proof (induction b s chan rule: chan_loop.induct)
  case (1 b s chan)
  show ?case
    by (subst (1 2) chan_loop.simps)
       (use 1 in \<open>auto simp: sample_loop_callback callback_downsampled_update id_def split: sum.split\<close>)
qed

lemma downsample_callback_buffer:
  "map_sum id downsampled_buffer (AHRS_ADC_downsample_data b (s\<lparr>callback_function := x\<rparr>)) =
   map_sum id downsampled_buffer (chan_loop b s 0)"
  by (cases "chan_loop b s 0"; cases x)
     (simp_all add: AHRS_ADC_downsample_data_def chan_loop_callback)

section \<open>Runs of signals\<close>

lemma raise_signal_fields [simp]:
  "valid_data_buffer (raise_signal ev s) = valid_data_buffer s"
  "downsampled_buffer (raise_signal ev s) = downsampled_buffer s"
  "length (raw_data_buffer (raise_signal ev s)) = length (raw_data_buffer s)"
  "fir_coeffs (raise_signal ev s) = fir_coeffs s"
  "adc_oversample (raise_signal ev s) = adc_oversample s"
  "callback_function (raise_signal ev s) = callback_function s"
  "dma_flags (raise_signal ev s) = insert (signal_flag (ev_signal ev)) (dma_flags s)"
  "DMA_BufferSize (raise_signal ev s) = DMA_BufferSize s"
  "consumer (raise_signal ev s) = consumer s"
  by (simp_all add: raise_signal_def)

lemma handler_in_bounds_first: "handler_in_bounds b s \<Longrightarrow> filter_in_bounds b s 0"
  by (simp add: handler_in_bounds_def filter_in_bounds_def)

lemma handler_in_bounds_cong:
  assumes "length (raw_data_buffer t) = length (raw_data_buffer s)" "fir_coeffs t = fir_coeffs s"
    "adc_oversample t = adc_oversample s"
    "length (downsampled_buffer t) = length (downsampled_buffer s)"
  shows "handler_in_bounds b t = handler_in_bounds b s"
  using assms by (simp add: handler_in_bounds_def filter_in_bounds_def)

lemma handler_in_bounds_pass:
  "handler_in_bounds b s \<Longrightarrow> handler_in_bounds b (pass_result b s off) = handler_in_bounds b s"
  by (rule handler_in_bounds_cong)
     (simp_all add: length_filtered handler_in_bounds_def filter_in_bounds_def)

lemma filtered_pass_result [simp]:
  "filtered b (pass_result b s off') off = filtered b s off"
  by (simp add: filtered_def filter_out_def weighted_sum_def tap_def divisor_def)

lemma deliver_completion:
  assumes "ev_signal ev \<noteq> TransferError" and "handler_in_bounds b s"
  shows "\<exists>off fl. deliver b ev s = Inr (pass_result b (DMA_ClearFlag fl (raise_signal ev s)) off)"
proof (cases "DMA_GetFlagStatus DMA1_IT_TC1 (raise_signal ev s)")
  case True
  have "handler_in_bounds b (raise_signal ev s)"
    using assms(2) by (simp add: handler_in_bounds_cong [of "raise_signal ev s" s])
  then show ?thesis
    using handler_full [OF True] by (auto simp: deliver_def handler_in_bounds_def)
next
  case False
  have ib: "handler_in_bounds b (raise_signal ev s)"
    using assms(2) by (simp add: handler_in_bounds_cong [of "raise_signal ev s" s])
  have "DMA_GetFlagStatus DMA1_IT_HT1 (raise_signal ev s)"
    using False assms(1) by (cases "ev_signal ev") (auto simp: DMA_GetFlagStatus_def)
  then show ?thesis
    using handler_half [OF False _ handler_in_bounds_first [OF ib]]
    by (auto simp: deliver_def)
qed

lemma deliver_callback:
  assumes "ev_signal ev \<noteq> TransferError" and "handler_in_bounds b s"
    and "callback_function s = Some cb"
  shows "\<exists>s1 off. deliver b ev s = Inr s1 \<and> handler_in_bounds b s1 \<and>
           callback_function s1 = Some cb \<and>
           valid_data_buffer s1 = Some off \<and>
           downsampled_buffer s1 = filtered b s1 off \<and>
           consumer s1 = cb (downsampled_buffer s1) (consumer s)"
proof -
  obtain off fl where d: "deliver b ev s = Inr (pass_result b (DMA_ClearFlag fl (raise_signal ev s)) off)"
    using deliver_completion [OF assms(1,2)] by blast
  let ?t = "DMA_ClearFlag fl (raise_signal ev s)"
  have "handler_in_bounds b ?t"
    using assms(2) by (simp add: handler_in_bounds_cong [of ?t s])
  then have "handler_in_bounds b (pass_result b ?t off)"
    by (simp add: handler_in_bounds_pass)
  then show ?thesis
    unfolding d using assms(3) by simp
qed

lemma trace_callback:
  assumes "callback_function s = Some cb" and "handler_in_bounds b s"
    and "\<forall>ev\<in>set evs. ev_signal ev \<noteq> TransferError"
  shows "\<exists>ss. trace b s evs = Inr ss \<and> length ss = length evs \<and>
           (\<forall>i<length ss.
              consumer (ss ! i) = cb (downsampled_buffer (ss ! i)) (consumer ((s # ss) ! i)) \<and>
              (\<exists>off. valid_data_buffer (ss ! i) = Some off \<and>
                     downsampled_buffer (ss ! i) = filtered b (ss ! i) off)) \<and>
           consumer (last (s # ss)) =
             foldl (\<lambda>e t. cb (downsampled_buffer t) e) (consumer s) ss"
  using assms
proof (induction evs arbitrary: s)
  case Nil
  then show ?case by simp
next
  case (Cons ev evs)
  obtain s1 off where d: "deliver b ev s = Inr s1" and ib: "handler_in_bounds b s1"
    and cb: "callback_function s1 = Some cb"
    and v: "valid_data_buffer s1 = Some off" "downsampled_buffer s1 = filtered b s1 off"
    and c: "consumer s1 = cb (downsampled_buffer s1) (consumer s)"
    using deliver_callback [of ev b s cb] Cons.prems by auto
  obtain ss where t: "trace b s1 evs = Inr ss" and l: "length ss = length evs"
    and st: "\<forall>i<length ss.
              consumer (ss ! i) = cb (downsampled_buffer (ss ! i)) (consumer ((s1 # ss) ! i)) \<and>
              (\<exists>off. valid_data_buffer (ss ! i) = Some off \<and>
                     downsampled_buffer (ss ! i) = filtered b (ss ! i) off)"
    and fo: "consumer (last (s1 # ss)) =
             foldl (\<lambda>e t. cb (downsampled_buffer t) e) (consumer s1) ss"
    using Cons.IH [OF cb ib] Cons.prems(3) by auto
  have "\<forall>i<length (s1 # ss).
              consumer ((s1 # ss) ! i) =
                cb (downsampled_buffer ((s1 # ss) ! i)) (consumer ((s # s1 # ss) ! i)) \<and>
              (\<exists>off. valid_data_buffer ((s1 # ss) ! i) = Some off \<and>
                     downsampled_buffer ((s1 # ss) ! i) = filtered b ((s1 # ss) ! i) off)"
  proof (intro allI impI)
    fix i assume "i < length (s1 # ss)"
    then show "consumer ((s1 # ss) ! i) =
                cb (downsampled_buffer ((s1 # ss) ! i)) (consumer ((s # s1 # ss) ! i)) \<and>
              (\<exists>off. valid_data_buffer ((s1 # ss) ! i) = Some off \<and>
                     downsampled_buffer ((s1 # ss) ! i) = filtered b ((s1 # ss) ! i) off)"
      using c v st by (cases i) auto
  qed
  moreover have "consumer (last (s # s1 # ss)) =
      foldl (\<lambda>e t. cb (downsampled_buffer t) e) (consumer s) (s1 # ss)"
    using fo c by simp
  ultimately show ?case
    using d t l by (simp del: last.simps nth_Cons_Suc)
qed

lemma deliver_clean:
  assumes "DMA1_IT_TC1 \<notin> dma_flags s" "DMA1_IT_HT1 \<notin> dma_flags s"
    and "handler_in_bounds b s" and "ev_signal ev \<noteq> TransferError"
  shows "\<exists>s1. deliver b ev s = Inr s1 \<and> handler_in_bounds b s1 \<and>
           adc_oversample s1 = adc_oversample s \<and>
           DMA1_IT_TC1 \<notin> dma_flags s1 \<and> DMA1_IT_HT1 \<notin> dma_flags s1 \<and>
           valid_data_buffer s1 =
             Some (if ev_signal ev = HalfTransfer then 0
                   else PIOS_ADC_NUM_CHANNELS b * unat (adc_oversample s))"
proof -
  let ?r = "raise_signal ev s"
  have ib: "handler_in_bounds b ?r"
    using assms(3) by (simp add: handler_in_bounds_cong [of ?r s])
  have keep: "\<And>fl off. handler_in_bounds b (pass_result b (DMA_ClearFlag fl ?r) off)"
  proof -
    fix fl off
    have "handler_in_bounds b (DMA_ClearFlag fl ?r)"
      using assms(3) by (simp add: handler_in_bounds_cong [of "DMA_ClearFlag fl ?r" s])
    then show "handler_in_bounds b (pass_result b (DMA_ClearFlag fl ?r) off)"
      by (simp add: handler_in_bounds_pass)
  qed
  show ?thesis
  proof (cases "ev_signal ev")
    case HalfTransfer
    have "\<not> DMA_GetFlagStatus DMA1_IT_TC1 ?r" "DMA_GetFlagStatus DMA1_IT_HT1 ?r"
      using assms(1) HalfTransfer by (simp_all add: DMA_GetFlagStatus_def)
    then have "deliver b ev s = Inr (pass_result b (DMA_ClearFlag DMA1_IT_HT1 ?r) 0)"
      using handler_half [OF _ _ handler_in_bounds_first [OF ib]] by (simp add: deliver_def)
    then show ?thesis
      using keep [of DMA1_IT_HT1 0] assms(1,2) HalfTransfer by simp
  next
    case FullTransfer
    have "DMA_GetFlagStatus DMA1_IT_TC1 ?r"
      using FullTransfer by (simp add: DMA_GetFlagStatus_def)
    then have "deliver b ev s =
        Inr (pass_result b (DMA_ClearFlag DMA1_IT_TC1 ?r)
               (PIOS_ADC_NUM_CHANNELS b * unat (adc_oversample s)))"
      using handler_full [of ?r b] ib by (simp add: deliver_def handler_in_bounds_def)
    then show ?thesis
      using keep [of DMA1_IT_TC1 "PIOS_ADC_NUM_CHANNELS b * unat (adc_oversample s)"]
        assms(1,2) FullTransfer by simp
  next
    case TransferError
    with assms(4) show ?thesis by simp
  qed
qed

lemma trace_clean:
  assumes "DMA1_IT_TC1 \<notin> dma_flags s" "DMA1_IT_HT1 \<notin> dma_flags s"
    and "handler_in_bounds b s" and "\<forall>ev\<in>set evs. ev_signal ev \<noteq> TransferError"
  shows "\<exists>ss. trace b s evs = Inr ss \<and> length ss = length evs \<and>
           (\<forall>i<length ss.
              adc_oversample (ss ! i) = adc_oversample s \<and>
              valid_data_buffer (ss ! i) =
                Some (if ev_signal (evs ! i) = HalfTransfer then 0
                      else PIOS_ADC_NUM_CHANNELS b * unat (adc_oversample s)))"
  using assms
proof (induction evs arbitrary: s)
  case Nil
  then show ?case by simp
next
  case (Cons ev evs)
  obtain s1 where d: "deliver b ev s = Inr s1" and ib: "handler_in_bounds b s1"
    and ov: "adc_oversample s1 = adc_oversample s"
    and cl: "DMA1_IT_TC1 \<notin> dma_flags s1" "DMA1_IT_HT1 \<notin> dma_flags s1"
    and v: "valid_data_buffer s1 =
             Some (if ev_signal ev = HalfTransfer then 0
                   else PIOS_ADC_NUM_CHANNELS b * unat (adc_oversample s))"
    using deliver_clean [of s b ev] Cons.prems by auto
  obtain ss where t: "trace b s1 evs = Inr ss" and l: "length ss = length evs"
    and st: "\<forall>i<length ss.
              adc_oversample (ss ! i) = adc_oversample s1 \<and>
              valid_data_buffer (ss ! i) =
                Some (if ev_signal (evs ! i) = HalfTransfer then 0
                      else PIOS_ADC_NUM_CHANNELS b * unat (adc_oversample s1))"
    using Cons.IH [OF cl ib] Cons.prems(4) by auto
  have "\<forall>i<length (s1 # ss).
              adc_oversample ((s1 # ss) ! i) = adc_oversample s \<and>
              valid_data_buffer ((s1 # ss) ! i) =
                Some (if ev_signal ((ev # evs) ! i) = HalfTransfer then 0
                      else PIOS_ADC_NUM_CHANNELS b * unat (adc_oversample s))"
  proof (intro allI impI)
    fix i assume "i < length (s1 # ss)"
    then show "adc_oversample ((s1 # ss) ! i) = adc_oversample s \<and>
              valid_data_buffer ((s1 # ss) ! i) =
                Some (if ev_signal ((ev # evs) ! i) = HalfTransfer then 0
                      else PIOS_ADC_NUM_CHANNELS b * unat (adc_oversample s))"
      using ov v st by (cases i) auto
  qed
  then show ?case
    using d t l by (simp del: nth_Cons_Suc)
qed

lemma alternating_completion:
  "alternating sigs \<Longrightarrow> x \<in> set sigs \<Longrightarrow> x \<noteq> TransferError"
  by (induction sigs rule: alternating.induct) auto

lemma alternating_adjacent:
  "alternating sigs \<Longrightarrow> Suc i < length sigs \<Longrightarrow>
     sigs ! i = HalfTransfer \<and> sigs ! Suc i = FullTransfer \<or>
     sigs ! i = FullTransfer \<and> sigs ! Suc i = HalfTransfer"
proof (induction sigs arbitrary: i rule: alternating.induct)
  case (3 x y r)
  then show ?case by (cases i) auto
qed simp_all

lemma halves_partition:
  fixes m :: nat
  shows "{0..<m} \<inter> {m..<2 * m} = {}" "{0..<m} \<union> {m..<2 * m} = {0..<2 * m}"
    "{m..<2 * m} \<inter> {0..<m} = {}" "{m..<2 * m} \<union> {0..<m} = {0..<2 * m}"
    "0 < m \<Longrightarrow> {0..<m} \<noteq> {m..<2 * m}" "0 < m \<Longrightarrow> {m..<2 * m} \<noteq> {0..<m}"
  by auto

lemma ex_handler_in_bounds:
  "handler_in_bounds ex_build ex_state" "handler_in_bounds ex_build ex_counting"
  by (simp_all add: handler_in_bounds_def filter_in_bounds_def ex_build_def ex_state_def
        ex_counting_def AHRS_ADC_SetCallback_def)

lemma ex_events_signals:
  "map ev_signal ex_events = [HalfTransfer, FullTransfer, HalfTransfer]"
  by (simp add: ex_events_def)

lemma foldl_count: "foldl (\<lambda>e t. Suc e) n ss = n + length ss"
  by (induction ss arbitrary: n) simp_all

section \<open>Configuration\<close>

lemma boxcar_loop_ok:
  assumes "i \<le> nat ov" "nat ov \<le> length (fir_coeffs s)"
  shows "boxcar_loop ov s i =
           Inr (s\<lparr>fir_coeffs := take i (fir_coeffs s) @ replicate (nat ov - i) 1
                                  @ drop (nat ov) (fir_coeffs s)\<rparr>)"
  using assms
proof (induction ov s i rule: boxcar_loop.induct)
  case (1 ov s i)
  let ?cs = "fir_coeffs s"
  show ?case
  proof (cases "int i < ov")
    case False
    with "1.prems" have "i = nat ov" by simp
    then show ?thesis using False by (subst boxcar_loop.simps) simp
  next
    case True
    then have lt: "i < nat ov" by simp
    then have inb: "\<not> length ?cs \<le> i" using "1.prems" by simp
    have step: "boxcar_loop ov s i = boxcar_loop ov (s\<lparr>fir_coeffs := ?cs[i := 1]\<rparr>) (Suc i)"
      using True inb by (subst boxcar_loop.simps) simp
    have tk: "take (Suc i) (?cs[i := 1]) = take i ?cs @ [1]"
      using inb by (simp add: take_Suc_conv_app_nth)
    have rp: "replicate (nat ov - i) (1 :: 16 word) = 1 # replicate (nat ov - Suc i) 1"
      using lt by (cases "nat ov - i") (simp_all add: Suc_diff_Suc)
    show ?thesis
      unfolding step using "1.IH" [OF True inb] "1.prems" lt
      by (simp add: tk rp)
  qed
qed

lemma boxcar_loop_fault:
  assumes "int (length (fir_coeffs s)) < ov" "i \<le> length (fir_coeffs s)"
  shows "boxcar_loop ov s i = Inl (CoeffIndex (int (length (fir_coeffs s))))"
  using assms
proof (induction ov s i rule: boxcar_loop.induct)
  case (1 ov s i)
  show ?case
  proof (cases "i = length (fir_coeffs s)")
    case True
    then show ?thesis using "1.prems" by (subst boxcar_loop.simps) simp
  next
    case False
    then have lt: "i < length (fir_coeffs s)" using "1.prems" by simp
    then have c: "int i < ov" "\<not> length (fir_coeffs s) \<le> i" using "1.prems" by simp_all
    show ?thesis
      using "1.IH" [OF c] "1.prems" lt c by (subst boxcar_loop.simps) simp
  qed
qed

lemma uint_eq_sint:
  assumes "0 \<le> sint (ov :: 32 word)"
  shows "uint ov = sint ov"
proof -
  have "sint ov < 2 ^ 32" using sint_lt [of ov] by simp
  then show ?thesis using assms by (simp add: uint_sint take_bit_int_eq_self)
qed

lemma sint_ucast16:
  assumes "0 \<le> sint (ov :: 32 word)" "sint ov \<le> 32767"
  shows "sint (ucast ov :: 16 word) = sint ov"
  using assms by (simp add: signed_ucast_eq uint_eq_sint signed_take_bit_int_eq_self)

lemma uint_ucast8:
  assumes "0 \<le> sint (ov :: 32 word)" "sint ov \<le> 255"
  shows "uint (ucast ov :: 8 word) = sint ov"
  using assms by (simp add: unsigned_ucast_eq uint_eq_sint take_bit_int_eq_self)

lemma Config_ok:
  assumes "0 \<le> sint ov" "sint ov < int (length (fir_coeffs s))"
  shows "AHRS_ADC_Config b ov s =
           Inr (s\<lparr>adc_oversample := ucast ov,
                  DMA_BufferSize := signed_drop_bit 1 (word_of_nat (PIOS_ADC_NUM_CHANNELS b) * ov * 2),
                  fir_coeffs := replicate (nat (sint ov)) 1 @ [ucast ov]
                                @ drop (Suc (nat (sint ov))) (fir_coeffs s)\<rparr>, 1)"
proof -
  let ?f = "nat (sint ov)"
  let ?cs = "fir_coeffs s"
  have lt: "?f < length ?cs" using assms by simp
  have upd: "(replicate ?f 1 @ drop ?f ?cs)[?f := ucast ov] =
      replicate ?f 1 @ [ucast ov] @ drop (Suc ?f) ?cs"
    using lt by (simp add: list_update_append Cons_nth_drop_Suc [symmetric])
  show ?thesis
    using assms lt
    by (simp add: AHRS_ADC_Config_def Let_def boxcar_loop_ok upd)
qed

lemma Config_fault:
  "sint ov < 0 \<Longrightarrow> AHRS_ADC_Config b ov s = Inl (CoeffIndex (sint ov))"
  "int (length (fir_coeffs s)) \<le> sint ov \<Longrightarrow>
     AHRS_ADC_Config b ov s = Inl (CoeffIndex (int (length (fir_coeffs s))))"
proof -
  assume n: "sint ov < 0"
  have "boxcar_loop (sint ov) t 0 = Inr t" for t :: "'a adc_state"
    using n by (subst boxcar_loop.simps) simp
  then show "AHRS_ADC_Config b ov s = Inl (CoeffIndex (sint ov))"
    using n by (simp add: AHRS_ADC_Config_def Let_def)
next
  assume g: "int (length (fir_coeffs s)) \<le> sint ov"
  show "AHRS_ADC_Config b ov s = Inl (CoeffIndex (int (length (fir_coeffs s))))"
  proof (cases "int (length (fir_coeffs s)) = sint ov")
    case True
    then have "nat (sint ov) = length (fir_coeffs s)" by simp
    then show ?thesis
      using True by (simp add: AHRS_ADC_Config_def Let_def boxcar_loop_ok)
  next
    case False
    with g have "int (length (fir_coeffs s)) < sint ov" by simp
    then show ?thesis
      by (simp add: AHRS_ADC_Config_def Let_def boxcar_loop_fault)
  qed
qed

section \<open>Replacing the coefficients\<close>

lemma f32_to_int16_fits: "fits_int16 x \<Longrightarrow> f32_to_int16 x = Inr (word_of_int (truncated x))"
  by (cases x) (simp_all add: fits_int16_def f32_to_int16_def truncated_def Let_def)

lemma sint_truncated: "fits_int16 x \<Longrightarrow> sint (word_of_int (truncated x) :: 16 word) = truncated x"
  by (cases x) (simp_all add: fits_int16_def signed_of_int signed_take_bit_int_eq_self)

lemma set_coeffs_loop_ok:
  assumes "unat (adc_oversample s) < length (fir_coeffs s)"
    and "unat (adc_oversample s) < length new_filter"
    and "\<forall>k\<le>unat (adc_oversample s). fits_int16 (new_filter ! k)"
    and "i \<le> Suc (unat (adc_oversample s))"
  shows "set_coeffs_loop new_filter s i =
           Inr (s\<lparr>fir_coeffs :=
                  take i (fir_coeffs s)
                  @ map (\<lambda>x. word_of_int (truncated x))
                      (take (Suc (unat (adc_oversample s)) - i) (drop i new_filter))
                  @ drop (Suc (unat (adc_oversample s))) (fir_coeffs s)\<rparr>)"
  using assms
proof (induction new_filter s i rule: set_coeffs_loop.induct)
  case (1 new_filter s i)
  let ?f = "unat (adc_oversample s)"
  let ?cs = "fir_coeffs s"
  show ?case
  proof (cases "i \<le> ?f")
    case False
    with "1.prems" have "i = Suc ?f" by simp
    then show ?thesis by (subst set_coeffs_loop.simps) simp
  next
    case True
    let ?v = "word_of_int (truncated (new_filter ! i)) :: 16 word"
    have c1: "\<not> length new_filter \<le> i" using True "1.prems"(2) by simp
    have c2: "f32_to_int16 (new_filter ! i) = Inr ?v"
      using True "1.prems"(3) by (simp add: f32_to_int16_fits)
    have c3: "\<not> length ?cs \<le> i" using True "1.prems"(1) by simp
    have step: "set_coeffs_loop new_filter s i =
        set_coeffs_loop new_filter (s\<lparr>fir_coeffs := ?cs[i := ?v]\<rparr>) (Suc i)"
      using True c1 c2 c3 by (subst set_coeffs_loop.simps) simp
    have tk: "take (Suc i) (?cs[i := ?v]) = take i ?cs @ [?v]"
      using c3 by (simp add: take_Suc_conv_app_nth)
    have dr: "drop (Suc ?f) (?cs[i := ?v]) = drop (Suc ?f) ?cs"
      using True by simp
    have nw: "take (Suc ?f - i) (drop i new_filter) =
        new_filter ! i # take (Suc ?f - Suc i) (drop (Suc i) new_filter)"
      using True c1 by (simp add: Suc_diff_le Cons_nth_drop_Suc [symmetric])
    show ?thesis
      unfolding step using "1.IH" [OF True c1 c2 c3] "1.prems" True
      by (simp add: tk dr nw)
  qed
qed

lemma set_coeffs_loop_bound:
  "set_coeffs_loop new_filter s i = Inr s' \<Longrightarrow> i \<le> unat (adc_oversample s) \<Longrightarrow>
     unat (adc_oversample s) < length (fir_coeffs s)"
proof (induction new_filter s i rule: set_coeffs_loop.induct)
  case (1 new_filter s i)
  from "1.prems"(1) "1.prems"(2) obtain v where
    c1: "\<not> length new_filter \<le> i" and c2: "f32_to_int16 (new_filter ! i) = Inr v"
    and c3: "\<not> length (fir_coeffs s) \<le> i"
    and r: "set_coeffs_loop new_filter (s\<lparr>fir_coeffs := (fir_coeffs s)[i := v]\<rparr>) (Suc i) = Inr s'"
    by (subst (asm) set_coeffs_loop.simps) (auto split: if_splits sum.splits)
  show ?case
  proof (cases "Suc i \<le> unat (adc_oversample s)")
    case True
    then show ?thesis
      using "1.IH" [OF "1.prems"(2) c1 c2 c3] r by simp
  next
    case False
    with "1.prems"(2) have "i = unat (adc_oversample s)" by simp
    with c3 show ?thesis by simp
  qed
qed

lemma set_coeffs_loop_fault:
  assumes "length (fir_coeffs s) \<le> unat (adc_oversample s)"
    and "length (fir_coeffs s) < length new_filter"
    and "\<forall>k\<le>length (fir_coeffs s). fits_int16 (new_filter ! k)"
    and "i \<le> length (fir_coeffs s)"
  shows "set_coeffs_loop new_filter s i = Inl (CoeffIndex (int (length (fir_coeffs s))))"
  using assms
proof (induction new_filter s i rule: set_coeffs_loop.induct)
  case (1 new_filter s i)
  let ?v = "word_of_int (truncated (new_filter ! i)) :: 16 word"
  have le: "i \<le> unat (adc_oversample s)" using "1.prems"(1,4) by simp
  have c1: "\<not> length new_filter \<le> i" using "1.prems"(2,4) by simp
  have c2: "f32_to_int16 (new_filter ! i) = Inr ?v"
    using "1.prems"(3,4) by (simp add: f32_to_int16_fits)
  show ?case
  proof (cases "i = length (fir_coeffs s)")
    case True
    then show ?thesis using le c1 c2 by (subst set_coeffs_loop.simps) simp
  next
    case False
    then have c3: "\<not> length (fir_coeffs s) \<le> i" using "1.prems"(4) by simp
    show ?thesis
      using "1.IH" [OF le c1 c2 c3] "1.prems" le c1 c2 c3
      by (subst set_coeffs_loop.simps) simp
  qed
qed

lemma SetFIR_ok:
  assumes "unat (adc_oversample s) < length (fir_coeffs s)"
    and "unat (adc_oversample s) < length new_filter"
    and "\<forall>k\<le>unat (adc_oversample s). fits_int16 (new_filter ! k)"
  shows "AHRS_ADC_SetFIRCoefficients new_filter s =
           Inr (s\<lparr>fir_coeffs :=
                  map (\<lambda>x. word_of_int (truncated x)) (take (Suc (unat (adc_oversample s))) new_filter)
                  @ drop (Suc (unat (adc_oversample s))) (fir_coeffs s)\<rparr>)"
  using set_coeffs_loop_ok [OF assms, of 0] by (simp add: AHRS_ADC_SetFIRCoefficients_def)

lemma SetFIR_nth:
  assumes "k \<le> f" "f < length new_filter" "fits_int16 (new_filter ! k)"
  shows "sint ((map (\<lambda>x. word_of_int (truncated x) :: 16 word) (take (Suc f) new_filter) @ rest) ! k)
           = truncated (new_filter ! k)"
  using assms by (simp add: nth_append sint_truncated)

lemma ex_replicate:
  "replicate 12 (0 :: 16 word) = [0, 0, 0, 0, 0, 0, 0, 0, 0, 0, 0, 0]"
  "replicate 4 (0 :: 16 word) = [0, 0, 0, 0]"
  "replicate 2 (F32 False 0) = [F32 False 0, F32 False 0]"
  "replicate 2 (1 :: 16 word) = [1, 1]"
  "replicate 3 (1 :: 16 word) = [1, 1, 1]"
  by (simp_all add: eval_nat_numeral)

lemma ex_init:
  "adc_init ex_build (0::nat) =
     \<lparr> raw_data_buffer = [0, 0, 0, 0, 0, 0, 0, 0, 0, 0, 0, 0],
       valid_data_buffer = None,
       adc_oversample = 0,
       fir_coeffs = [0, 0, 0, 0],
       downsampled_buffer = [F32 False 0, F32 False 0],
       callback_function = None,
       consumer = 0,
       dma_flags = {},
       DMA_BufferSize = 0 \<rparr>"
  by (simp add: adc_init_def ex_build_def ex_replicate)

lemma ex_words:
  "sint (2 :: 32 word) = 2" "sint (3 :: 32 word) = 3" "sint (4 :: 32 word) = 4"
  "(ucast (2 :: 32 word) :: 16 word) = 2" "(ucast (3 :: 32 word) :: 16 word) = 3"
  "(ucast (2 :: 32 word) :: 8 word) = 2" "(ucast (3 :: 32 word) :: 8 word) = 3"
  "signed_drop_bit 1 (word_of_nat 2 * 2 * 2 :: 32 word) = 4"
  "signed_drop_bit 1 (word_of_nat 2 * 3 * 2 :: 32 word) = 6"
  by simp_all

lemma ex_Config2: "AHRS_ADC_Config ex_build 2 (adc_init ex_build 0) = Inr (ex_configured2, 1)"
proof -
  have "0 \<le> sint (2 :: 32 word)" "sint (2 :: 32 word) < int (length (fir_coeffs (adc_init ex_build (0::nat))))"
    by (simp_all add: ex_init)
  from Config_ok [OF this, of ex_build] show ?thesis
    by (simp add: ex_init ex_configured2_def ex_channels ex_words ex_replicate)
qed

lemma ex_Config3: "AHRS_ADC_Config ex_build 3 (adc_init ex_build 0) = Inr (ex_configured3, 1)"
proof -
  have "0 \<le> sint (3 :: 32 word)" "sint (3 :: 32 word) < int (length (fir_coeffs (adc_init ex_build (0::nat))))"
    by (simp_all add: ex_init)
  from Config_ok [OF this, of ex_build] show ?thesis
    by (simp add: ex_init ex_configured3_def ex_channels ex_words ex_replicate)
qed

lemma ex_filter_fits: "\<forall>k\<le>3. fits_int16 (ex_filter ! k)"
proof -
  have "fits_int16 (ex_filter ! 0)" "fits_int16 (ex_filter ! Suc 0)"
    "fits_int16 (ex_filter ! Suc (Suc 0))" "fits_int16 (ex_filter ! Suc (Suc (Suc 0)))"
    by code_simp+
  then show ?thesis
    by (auto simp: le_Suc_eq numeral_3_eq_3)
qed

lemma DMA_BufferSize_samples:
  assumes "0 \<le> sint (ov :: 32 word)" "int n * sint ov * 2 < 2 ^ 31"
  shows "sint (signed_drop_bit 1 (word_of_nat n * ov * 2 :: 32 word)) * 2 = int n * sint ov * 2"
proof -
  have "(word_of_nat n * ov * 2 :: 32 word) = word_of_int (int n * sint ov * 2)"
    by simp
  moreover have "0 \<le> int n * sint ov * 2" using assms(1) by simp
  ultimately have "sint (word_of_nat n * ov * 2 :: 32 word) = int n * sint ov * 2"
    using assms(2) by (simp only: signed_of_int) (simp add: signed_take_bit_int_eq_self)
  then show ?thesis
    by (simp add: sint_signed_drop_bit_eq drop_bit_eq_div)
qed

lemma Config_Inr_iff:
  "(\<exists>r. AHRS_ADC_Config b ov s = Inr r) \<longleftrightarrow>
     0 \<le> sint ov \<and> sint ov < int (length (fir_coeffs s))"
proof (cases "0 \<le> sint ov \<and> sint ov < int (length (fir_coeffs s))")
  case True
  then show ?thesis using Config_ok [of ov s b] by simp
next
  case False
  then have "sint ov < 0 \<or> int (length (fir_coeffs s)) \<le> sint ov" by auto
  then show ?thesis
    using False Config_fault [where ov = ov and b = b and s = s] by auto
qed

lemma ex_filter5_fits: "\<forall>k\<le>4. fits_int16 (ex_filter5 ! k)"
proof -
  have "fits_int16 (ex_filter5 ! 0)" "fits_int16 (ex_filter5 ! Suc 0)"
    "fits_int16 (ex_filter5 ! Suc (Suc 0))" "fits_int16 (ex_filter5 ! Suc (Suc (Suc 0)))"
    "fits_int16 (ex_filter5 ! Suc (Suc (Suc (Suc 0))))"
    by code_simp+
  then show ?thesis
    by (auto simp: le_Suc_eq eval_nat_numeral)
qed

lemma Config_raw:
  assumes "AHRS_ADC_Config b ov s = Inr (s', r)"
  shows "0 \<le> sint ov" "raw_data_buffer s' = raw_data_buffer s"
    "DMA_BufferSize s' = signed_drop_bit 1 (word_of_nat (PIOS_ADC_NUM_CHANNELS b) * ov * 2)"
proof -
  have c: "0 \<le> sint ov \<and> sint ov < int (length (fir_coeffs s))"
    using Config_Inr_iff [of b ov s] assms by auto
  then show "0 \<le> sint ov" by simp
  show "raw_data_buffer s' = raw_data_buffer s"
    "DMA_BufferSize s' = signed_drop_bit 1 (word_of_nat (PIOS_ADC_NUM_CHANNELS b) * ov * 2)"
    using assms c by (auto simp: Config_ok)
qed

lemma ex_custom_quotients:
  "f32_div (f32_of_int (int32 80)) (f32_of_int 4) = F32 False 20"
  "f32_div (f32_of_int (int32 20)) (f32_of_int 4) = F32 False 5"
  by code_simp+

lemma ex_filter_values:
  "truncated (ex_filter ! 0) = 1" "truncated (ex_filter ! Suc 0) = 2"
  "truncated (ex_filter ! Suc (Suc 0)) = 1" "truncated (ex_filter ! Suc (Suc (Suc 0))) = 4"
  by code_simp+

section \<open>The indices of the raw buffer\<close>

lemma sample_loop_RawIndex:
  assumes "sample_loop b s chan sample acc = Inl (RawIndex k)"
    and "valid_data_buffer s = Some off" and "chan < PIOS_ADC_NUM_CHANNELS b"
  shows "length (raw_data_buffer s) \<le> k \<and>
         k < off + PIOS_ADC_NUM_CHANNELS b * unat (adc_oversample s)"
  using assms
proof (induction b s chan sample acc rule: sample_loop.induct)
  case (1 b s chan sample acc)
  have lt: "sample < unat (adc_oversample s)"
    using "1.prems"(1) by (subst (asm) sample_loop.simps) (simp split: if_splits)
  show ?case
  proof (cases "length (raw_data_buffer s) \<le> raw_index b off chan sample")
    case True
    then have "k = raw_index b off chan sample"
      using "1.prems"(1,2) lt by (subst (asm) sample_loop.simps) simp
    then show ?thesis
      using True raw_index_bound [OF "1.prems"(3) lt, of off] by simp
  next
    case False
    then have c: "\<not> length (fir_coeffs s) \<le> sample"
      and r: "sample_loop b s chan (Suc sample)
                (acc + scast (raw_data_buffer s ! raw_index b off chan sample)
                       * scast (fir_coeffs s ! sample)) = Inl (RawIndex k)"
      using "1.prems"(1,2) lt
      by (subst (asm) sample_loop.simps, simp split: if_splits)+
    show ?thesis
      using "1.IH" [OF lt "1.prems"(2) False c r "1.prems"(2,3)] .
  qed
qed

lemma chan_loop_RawIndex:
  assumes "chan_loop b s chan = Inl (RawIndex k)" and "valid_data_buffer s = Some off"
  shows "length (raw_data_buffer s) \<le> k \<and>
         k < off + PIOS_ADC_NUM_CHANNELS b * unat (adc_oversample s)"
  using assms
proof (induction b s chan rule: chan_loop.induct)
  case (1 b s chan)
  have lt: "chan < PIOS_ADC_NUM_CHANNELS b"
    using "1.prems"(1) by (subst (asm) chan_loop.simps) (simp split: if_splits)
  show ?case
  proof (cases "sample_loop b s chan 0 0")
    case (Inl e)
    then have "e = RawIndex k"
      using "1.prems"(1) lt by (subst (asm) chan_loop.simps) simp
    with Inl show ?thesis
      using sample_loop_RawIndex [OF _ "1.prems"(2) lt] by simp
  next
    case (Inr acc)
    let ?s1 = "s\<lparr>downsampled_buffer := (downsampled_buffer s)
                 [chan := f32_div (f32_of_int (sint acc))
                            (f32_of_int (sint (fir_coeffs s ! unat (adc_oversample s))))]\<rparr>"
    have c: "\<not> length (fir_coeffs s) \<le> unat (adc_oversample s)"
      "\<not> length (downsampled_buffer s) \<le> chan" "chan \<noteq> 65535"
      and r: "chan_loop b ?s1 (Suc chan) = Inl (RawIndex k)"
      using "1.prems"(1) lt Inr
      by (subst (asm) chan_loop.simps, simp split: if_splits)+
    show ?thesis
      using "1.IH" [OF lt Inr c r] "1.prems"(2) by simp
  qed
qed

lemma downsample_RawIndex:
  assumes "AHRS_ADC_downsample_data b s = Inl (RawIndex k)" and "valid_data_buffer s = Some off"
  shows "length (raw_data_buffer s) \<le> k \<and>
         k < off + PIOS_ADC_NUM_CHANNELS b * unat (adc_oversample s)"
proof -
  have "chan_loop b s 0 = Inl (RawIndex k)"
    using assms(1)
    by (auto simp: AHRS_ADC_downsample_data_def split: sum.splits option.splits)
  then show ?thesis by (rule chan_loop_RawIndex [OF _ assms(2)])
qed

lemma handler_RawIndex:
  assumes "AHRS_ADC_DMA_Handler b s = Inl (RawIndex k)"
  shows "length (raw_data_buffer s) \<le> k \<and>
         k < PIOS_ADC_NUM_CHANNELS b * unat (adc_oversample s) * 2"
proof (cases "DMA_GetFlagStatus DMA1_IT_TC1 s")
  case True
  let ?m = "PIOS_ADC_NUM_CHANNELS b * unat (adc_oversample s)"
  let ?t = "DMA_ClearFlag DMA1_IT_TC1 (s\<lparr>valid_data_buffer := Some (1 * PIOS_ADC_NUM_CHANNELS b * unat (adc_oversample s))\<rparr>)"
  have "AHRS_ADC_downsample_data b ?t = Inl (RawIndex k)"
    using assms True by (simp add: AHRS_ADC_DMA_Handler_def)
  from downsample_RawIndex [OF this, of ?m] show ?thesis
    by (simp add: DMA_ClearFlag_def)
next
  case False
  show ?thesis
  proof (cases "DMA_GetFlagStatus DMA1_IT_HT1 s")
    case True
    let ?t = "DMA_ClearFlag DMA1_IT_HT1 (s\<lparr>valid_data_buffer := Some (0 * PIOS_ADC_NUM_CHANNELS b * unat (adc_oversample s))\<rparr>)"
    have "AHRS_ADC_downsample_data b ?t = Inl (RawIndex k)"
      using assms True False by (simp add: AHRS_ADC_DMA_Handler_def)
    from downsample_RawIndex [OF this, of 0] show ?thesis
      by (simp add: DMA_ClearFlag_def)
  next
    case f: False
    with False assms show ?thesis by (simp add: AHRS_ADC_DMA_Handler_def)
  qed
qed

lemma handler_returns:
  assumes "handler_in_bounds b s"
  shows "\<exists>s'. AHRS_ADC_DMA_Handler b s = Inr s' \<and>
              length (raw_data_buffer s') = length (raw_data_buffer s) \<and>
              (DMA_GetFlagStatus DMA1_IT_TC1 s \<or> DMA_GetFlagStatus DMA1_IT_HT1 s \<longrightarrow>
                 valid_data_buffer s' = Some 0 \<or>
                 valid_data_buffer s' = Some (PIOS_ADC_NUM_CHANNELS b * unat (adc_oversample s)))"
proof (cases "DMA_GetFlagStatus DMA1_IT_TC1 s")
  case True
  then show ?thesis
    using handler_full [OF True] assms by (simp add: handler_in_bounds_def)
next
  case False
  show ?thesis
  proof (cases "DMA_GetFlagStatus DMA1_IT_HT1 s")
    case True
    then show ?thesis
      using handler_half [OF False True handler_in_bounds_first [OF assms]] by simp
  next
    case f: False
    then show ?thesis using handler_other [OF False f] False by simp
  qed
qed

lemma ex_short_fault: "AHRS_ADC_DMA_Handler ex_build ex_short = Inl (RawIndex 11)"
  by (simp add: AHRS_ADC_DMA_Handler_def DMA_GetFlagStatus_def DMA_ClearFlag_def
        AHRS_ADC_downsample_data_def chan_loop.simps sample_loop.simps raw_index_def
        ex_short_def ex_state_def ex_build_def)


lemma ex_short_filter_fault:
  "AHRS_ADC_downsample_data ex_build (ex_short\<lparr>valid_data_buffer := Some 6\<rparr>) = Inl (RawIndex 11)"
  by (simp add: AHRS_ADC_downsample_data_def chan_loop.simps sample_loop.simps raw_index_def
        ex_short_def ex_state_def ex_build_def)

section \<open>The properties\<close>

text \<open>
  C1, amended. Whenever the elements a pass touches exist, \<^verbatim>\<open>AHRS_ADC_downsample_data\<close>
  returns, and for every channel \<open>c\<close> below \<^verbatim>\<open>PIOS_ADC_NUM_CHANNELS\<close> it has stored
  \<^verbatim>\<open>(float)sum / coeff[oversample]\<close>, where \<open>sum\<close> is the weighted sum
  \<open>\<Sum>\<^sub>k raw[c + k\<cdot>num_channels] \<times> coeff[k]\<close> over the valid half as a signed 32-bit
  accumulator holds it: reduced modulo \<open>2^32\<close>, and so the sum itself whenever that lies
  between \<open>-2^31\<close> and \<open>2^31 - 1\<close>.
\<close>

theorem downsample_weighted_sum:
  assumes "valid_data_buffer s = Some off" and "filter_in_bounds b s off"
  shows "\<exists>s'. AHRS_ADC_downsample_data b s = Inr s' \<and>
           length (downsampled_buffer s') = length (downsampled_buffer s) \<and>
           (\<forall>c<PIOS_ADC_NUM_CHANNELS b.
              downsampled_buffer s' ! c =
                f32_div (f32_of_int (int32 (weighted_sum b s off c))) (f32_of_int (divisor s)) \<and>
              (- (2 ^ 31) \<le> weighted_sum b s off c \<and> weighted_sum b s off c < 2 ^ 31 \<longrightarrow>
                 downsampled_buffer s' ! c =
                   f32_div (f32_of_int (weighted_sum b s off c)) (f32_of_int (divisor s))))"
proof -
  have len: "length (filtered b s off) = length (downsampled_buffer s)"
    using assms(2) by (simp add: length_filtered filter_in_bounds_def)
  show ?thesis
    unfolding downsample_ok [OF assms]
    by (cases "callback_function s")
       (auto simp: len filtered_nth filter_out_def int32_id)
qed

text \<open>
  With two channels, three samples, coefficients 1, 1, 1 and divisor 3, the half
  10, 5, 20, 5, 30, 5 gives 20.0 and 5.0.
\<close>

theorem downsample_weighted_sum_witness:
  "valid_data_buffer ex_state = Some 0 \<and> filter_in_bounds ex_build ex_state 0 \<and>
   (\<exists>s'. AHRS_ADC_downsample_data ex_build ex_state = Inr s' \<and>
         downsampled_buffer s' = [F32 False 20, F32 False 5])"
proof -
  have v: "valid_data_buffer ex_state = Some 0" by (simp add: ex_state_def)
  obtain s' where r: "AHRS_ADC_downsample_data ex_build ex_state = Inr s'"
    and l: "length (downsampled_buffer s') = length (downsampled_buffer ex_state)"
    and c: "\<forall>c<PIOS_ADC_NUM_CHANNELS ex_build.
              downsampled_buffer s' ! c =
                f32_div (f32_of_int (int32 (weighted_sum ex_build ex_state 0 c)))
                  (f32_of_int (divisor ex_state)) \<and>
              (- (2 ^ 31) \<le> weighted_sum ex_build ex_state 0 c \<and>
               weighted_sum ex_build ex_state 0 c < 2 ^ 31 \<longrightarrow>
                 downsampled_buffer s' ! c =
                   f32_div (f32_of_int (weighted_sum ex_build ex_state 0 c))
                     (f32_of_int (divisor ex_state)))"
    using downsample_weighted_sum [OF v ex_in_bounds] by blast
  have "downsampled_buffer s' ! 0 = F32 False 20"
    using c [rule_format, of 0] by (simp add: ex_channels ex_weighted_sum ex_divisor ex_quotients int32_id)
  moreover have "downsampled_buffer s' ! Suc 0 = F32 False 5"
    using c [rule_format, of "Suc 0"] by (simp add: ex_channels ex_weighted_sum ex_divisor ex_quotients int32_id)
  moreover have "length (downsampled_buffer s') = 2"
    using l by (simp add: ex_state_def)
  ultimately have "downsampled_buffer s' = [F32 False 20, F32 False 5]"
    by (intro nth_equalityI) (auto simp: less_Suc_eq numeral_2_eq_2)
  then show ?thesis using v ex_in_bounds r by blast
qed

text \<open>
  Without the reduction the statement fails: three samples 32767 with weights 32767
  sum to 3221028867, which no \<^verbatim>\<open>int32_t\<close> holds. The pass stores -357979488.0 for
  channel 0, the exact sum divided by 3 would be 1073676288.0.
\<close>

theorem downsample_overflow_counterexample:
  "AHRS_ADC_downsample_data ex_build ex_overflow =
     Inr (ex_overflow\<lparr>downsampled_buffer := [F32 True 357979488, F32 False 163835]\<rparr>) \<and>
   weighted_sum ex_build ex_overflow 0 0 = 3221028867 \<and>
   f32_div (f32_of_int (weighted_sum ex_build ex_overflow 0 0)) (f32_of_int (divisor ex_overflow))
     = F32 False 1073676288"
proof -
  have v: "valid_data_buffer ex_overflow = Some 0" "callback_function ex_overflow = None"
    by (simp_all add: ex_overflow_def)
  have "filtered ex_build ex_overflow 0 = [F32 True 357979488, F32 False 163835]"
    by (simp add: filtered_def ex_upt filter_out_def ex_overflow_sum ex_overflow_divisor
          ex_overflow_quotients int32_id)
       (simp add: ex_overflow_def ex_channels)
  then have "AHRS_ADC_downsample_data ex_build ex_overflow =
     Inr (ex_overflow\<lparr>downsampled_buffer := [F32 True 357979488, F32 False 163835]\<rparr>)"
    unfolding downsample_ok [OF v(1) ex_overflow_in_bounds] by (simp add: v(2))
  then show ?thesis
    by (simp add: ex_overflow_sum ex_overflow_divisor ex_overflow_quotients)
qed

text \<open>
  C2. The handler tests the full-transfer flag first. With the half-transfer flag
  pending and the full-transfer flag not, it is the filter pass run on the state whose
  pointer is index 0 of the raw buffer, the first half, and whose half-transfer flag is
  cleared; with the full-transfer flag pending it is the filter pass run on the state
  whose pointer is index \<open>num_channels \<times> oversample\<close>, the second half, and whose
  full-transfer flag is cleared. Where the elements of that half exist the handler
  returns, with the pointer and the flags so, the filtered values of that half in
  \<^verbatim>\<open>downsampled_buffer\<close>, and the callback applied once to them.
\<close>

theorem handler_transitions:
  "(\<not> DMA_GetFlagStatus DMA1_IT_TC1 s \<and> DMA_GetFlagStatus DMA1_IT_HT1 s \<longrightarrow>
      AHRS_ADC_DMA_Handler b s =
        AHRS_ADC_downsample_data b
          (s\<lparr>valid_data_buffer := Some 0, dma_flags := dma_flags s - {DMA1_IT_HT1}\<rparr>) \<and>
      (filter_in_bounds b s 0 \<longrightarrow>
         (\<exists>s'. AHRS_ADC_DMA_Handler b s = Inr s' \<and>
               valid_data_buffer s' = Some 0 \<and>
               dma_flags s' = dma_flags s - {DMA1_IT_HT1} \<and>
               downsampled_buffer s' = filtered b s 0 \<and>
               consumer s' = (case callback_function s of None \<Rightarrow> consumer s
                              | Some cb \<Rightarrow> cb (filtered b s 0) (consumer s))))) \<and>
   (DMA_GetFlagStatus DMA1_IT_TC1 s \<longrightarrow>
      AHRS_ADC_DMA_Handler b s =
        AHRS_ADC_downsample_data b
          (s\<lparr>valid_data_buffer := Some (PIOS_ADC_NUM_CHANNELS b * unat (adc_oversample s)),
             dma_flags := dma_flags s - {DMA1_IT_TC1}\<rparr>) \<and>
      (filter_in_bounds b s (PIOS_ADC_NUM_CHANNELS b * unat (adc_oversample s)) \<longrightarrow>
         (\<exists>s'. AHRS_ADC_DMA_Handler b s = Inr s' \<and>
               valid_data_buffer s' = Some (PIOS_ADC_NUM_CHANNELS b * unat (adc_oversample s)) \<and>
               dma_flags s' = dma_flags s - {DMA1_IT_TC1} \<and>
               downsampled_buffer s' =
                 filtered b s (PIOS_ADC_NUM_CHANNELS b * unat (adc_oversample s)) \<and>
               consumer s' = (case callback_function s of None \<Rightarrow> consumer s
                              | Some cb \<Rightarrow> cb (filtered b s (PIOS_ADC_NUM_CHANNELS b * unat (adc_oversample s)))
                                             (consumer s)))))"
proof (intro conjI impI)
  assume "\<not> DMA_GetFlagStatus DMA1_IT_TC1 s \<and> DMA_GetFlagStatus DMA1_IT_HT1 s"
  then show "AHRS_ADC_DMA_Handler b s =
        AHRS_ADC_downsample_data b
          (s\<lparr>valid_data_buffer := Some 0, dma_flags := dma_flags s - {DMA1_IT_HT1}\<rparr>)"
    by (simp add: AHRS_ADC_DMA_Handler_def DMA_ClearFlag_def)
next
  assume "\<not> DMA_GetFlagStatus DMA1_IT_TC1 s \<and> DMA_GetFlagStatus DMA1_IT_HT1 s"
    and "filter_in_bounds b s 0"
  then show "\<exists>s'. AHRS_ADC_DMA_Handler b s = Inr s' \<and>
               valid_data_buffer s' = Some 0 \<and>
               dma_flags s' = dma_flags s - {DMA1_IT_HT1} \<and>
               downsampled_buffer s' = filtered b s 0 \<and>
               consumer s' = (case callback_function s of None \<Rightarrow> consumer s
                              | Some cb \<Rightarrow> cb (filtered b s 0) (consumer s))"
    by (simp add: handler_half split: option.split)
next
  assume "DMA_GetFlagStatus DMA1_IT_TC1 s"
  then show "AHRS_ADC_DMA_Handler b s =
        AHRS_ADC_downsample_data b
          (s\<lparr>valid_data_buffer := Some (PIOS_ADC_NUM_CHANNELS b * unat (adc_oversample s)),
             dma_flags := dma_flags s - {DMA1_IT_TC1}\<rparr>)"
    by (simp add: AHRS_ADC_DMA_Handler_def DMA_ClearFlag_def mult.assoc)
next
  let ?off = "PIOS_ADC_NUM_CHANNELS b * unat (adc_oversample s)"
  assume "DMA_GetFlagStatus DMA1_IT_TC1 s" and "filter_in_bounds b s ?off"
  then show "\<exists>s'. AHRS_ADC_DMA_Handler b s = Inr s' \<and>
               valid_data_buffer s' = Some ?off \<and>
               dma_flags s' = dma_flags s - {DMA1_IT_TC1} \<and>
               downsampled_buffer s' = filtered b s ?off \<and>
               consumer s' = (case callback_function s of None \<Rightarrow> consumer s
                              | Some cb \<Rightarrow> cb (filtered b s ?off) (consumer s))"
    by (simp add: handler_full split: option.split)
qed

theorem handler_transitions_witness:
  "(\<not> DMA_GetFlagStatus DMA1_IT_TC1 ex_half_pending \<and>
    DMA_GetFlagStatus DMA1_IT_HT1 ex_half_pending \<and>
    filter_in_bounds ex_build ex_half_pending 0 \<and>
    (\<exists>s'. AHRS_ADC_DMA_Handler ex_build ex_half_pending = Inr s' \<and>
          valid_data_buffer s' = Some 0 \<and> dma_flags s' = {} \<and>
          downsampled_buffer s' = [F32 False 20, F32 False 5])) \<and>
   (DMA_GetFlagStatus DMA1_IT_TC1 ex_full_pending \<and>
    filter_in_bounds ex_build ex_full_pending 6 \<and>
    (\<exists>s'. AHRS_ADC_DMA_Handler ex_build ex_full_pending = Inr s' \<and>
          valid_data_buffer s' = Some 6 \<and> dma_flags s' = {} \<and>
          downsampled_buffer s' = [F32 False 50, F32 False 8]))"
proof -
  have h: "\<not> DMA_GetFlagStatus DMA1_IT_TC1 ex_half_pending"
    "DMA_GetFlagStatus DMA1_IT_HT1 ex_half_pending" "dma_flags ex_half_pending = {DMA1_IT_HT1}"
    by (simp_all add: DMA_GetFlagStatus_def ex_half_pending_def)
  have f: "DMA_GetFlagStatus DMA1_IT_TC1 ex_full_pending" "dma_flags ex_full_pending = {DMA1_IT_TC1}"
    "PIOS_ADC_NUM_CHANNELS ex_build * unat (adc_oversample ex_full_pending) = 6"
    by (simp_all add: DMA_GetFlagStatus_def ex_full_pending_def ex_state_def ex_build_def)
  have "\<exists>s'. AHRS_ADC_DMA_Handler ex_build ex_half_pending = Inr s' \<and>
          valid_data_buffer s' = Some 0 \<and>
          dma_flags s' = dma_flags ex_half_pending - {DMA1_IT_HT1} \<and>
          downsampled_buffer s' = filtered ex_build ex_half_pending 0"
    using handler_transitions [of ex_half_pending ex_build] h(1,2) ex_pending_in_bounds(1)
    by blast
  moreover have "\<exists>s'. AHRS_ADC_DMA_Handler ex_build ex_full_pending = Inr s' \<and>
          valid_data_buffer s' =
            Some (PIOS_ADC_NUM_CHANNELS ex_build * unat (adc_oversample ex_full_pending)) \<and>
          dma_flags s' = dma_flags ex_full_pending - {DMA1_IT_TC1} \<and>
          downsampled_buffer s' =
            filtered ex_build ex_full_pending
              (PIOS_ADC_NUM_CHANNELS ex_build * unat (adc_oversample ex_full_pending))"
    using handler_transitions [of ex_full_pending ex_build] f(1) ex_pending_in_bounds(2)
    unfolding f(3) by blast
  ultimately show ?thesis
    using h f(1) ex_pending_in_bounds
    by (simp add: h(3) f(2,3) ex_pending_filtered ex_filtered)
qed

text \<open>
  C3. Start with no completion flag pending and with the elements of both halves in
  place, and let half-transfer and full-transfer signals alternate. The handler returns
  at every signal. After a half-transfer signal the published half is the indices from
  0 up to \<open>num_channels \<times> oversample\<close>, after a full-transfer signal the indices from
  there up to twice that. The halves published at two consecutive signals are disjoint
  and together make up the transfer region \<open>0 ..< 2 \<times> num_channels \<times> oversample\<close>; unless
  that region is empty they differ, and so do the two pointers.
\<close>

theorem published_halves_alternate:
  assumes "DMA1_IT_TC1 \<notin> dma_flags s" and "DMA1_IT_HT1 \<notin> dma_flags s"
    and "handler_in_bounds b s" and "alternating (map ev_signal evs)"
  shows "\<exists>ss. trace b s evs = Inr ss \<and> length ss = length evs \<and>
           (\<forall>i<length ss.
              valid_half b (ss ! i) =
                (if ev_signal (evs ! i) = HalfTransfer
                 then {0 ..< PIOS_ADC_NUM_CHANNELS b * unat (adc_oversample s)}
                 else {PIOS_ADC_NUM_CHANNELS b * unat (adc_oversample s)
                       ..< 2 * (PIOS_ADC_NUM_CHANNELS b * unat (adc_oversample s))})) \<and>
           (\<forall>i. Suc i < length ss \<longrightarrow>
              valid_half b (ss ! i) \<inter> valid_half b (ss ! Suc i) = {} \<and>
              valid_half b (ss ! i) \<union> valid_half b (ss ! Suc i) =
                {0 ..< 2 * (PIOS_ADC_NUM_CHANNELS b * unat (adc_oversample s))} \<and>
              (0 < PIOS_ADC_NUM_CHANNELS b * unat (adc_oversample s) \<longrightarrow>
                 valid_half b (ss ! i) \<noteq> valid_half b (ss ! Suc i) \<and>
                 valid_data_buffer (ss ! i) \<noteq> valid_data_buffer (ss ! Suc i)))"
proof -
  let ?m = "PIOS_ADC_NUM_CHANNELS b * unat (adc_oversample s)"
  have ne: "\<forall>ev\<in>set evs. ev_signal ev \<noteq> TransferError"
    using alternating_completion [OF assms(4)] by auto
  obtain ss where t: "trace b s evs = Inr ss" and l: "length ss = length evs"
    and st: "\<forall>i<length ss.
              adc_oversample (ss ! i) = adc_oversample s \<and>
              valid_data_buffer (ss ! i) =
                Some (if ev_signal (evs ! i) = HalfTransfer then 0 else ?m)"
    using trace_clean [OF assms(1-3) ne] by blast
  have vh: "valid_half b (ss ! i) =
      (if ev_signal (evs ! i) = HalfTransfer then {0 ..< ?m} else {?m ..< 2 * ?m})"
    if "i < length ss" for i
    using st [rule_format, OF that] by (simp add: valid_half_def mult_2)
  have adj: "valid_half b (ss ! i) \<inter> valid_half b (ss ! Suc i) = {} \<and>
      valid_half b (ss ! i) \<union> valid_half b (ss ! Suc i) = {0 ..< 2 * ?m} \<and>
      (0 < ?m \<longrightarrow> valid_half b (ss ! i) \<noteq> valid_half b (ss ! Suc i) \<and>
                 valid_data_buffer (ss ! i) \<noteq> valid_data_buffer (ss ! Suc i))"
    if "Suc i < length ss" for i
  proof -
    have i: "i < length ss" using that by simp
    have "ev_signal (evs ! i) = HalfTransfer \<and> ev_signal (evs ! Suc i) = FullTransfer \<or>
          ev_signal (evs ! i) = FullTransfer \<and> ev_signal (evs ! Suc i) = HalfTransfer"
      using alternating_adjacent [OF assms(4), of i] that l by simp
    then show ?thesis
      using vh [OF i] vh [OF that] st [rule_format, OF i] st [rule_format, OF that]
        halves_partition [of ?m]
      by (elim disjE conjE) simp_all
  qed
  show ?thesis
    using t l vh adj by blast
qed

theorem published_halves_alternate_witness:
  "DMA1_IT_TC1 \<notin> dma_flags ex_state \<and> DMA1_IT_HT1 \<notin> dma_flags ex_state \<and>
   handler_in_bounds ex_build ex_state \<and> alternating (map ev_signal ex_events) \<and>
   0 < PIOS_ADC_NUM_CHANNELS ex_build * unat (adc_oversample ex_state) \<and>
   (\<exists>ss. trace ex_build ex_state ex_events = Inr ss \<and> length ss = 3 \<and>
         valid_half ex_build (ss ! 0) = {0..<6} \<and>
         valid_half ex_build (ss ! 1) = {6..<12} \<and>
         valid_half ex_build (ss ! 2) = {0..<6} \<and>
         valid_half ex_build (ss ! 0) \<inter> valid_half ex_build (ss ! 1) = {} \<and>
         valid_half ex_build (ss ! 1) \<inter> valid_half ex_build (ss ! 2) = {} \<and>
         valid_data_buffer (ss ! 0) \<noteq> valid_data_buffer (ss ! 1) \<and>
         valid_data_buffer (ss ! 1) \<noteq> valid_data_buffer (ss ! 2))"
proof -
  have c: "DMA1_IT_TC1 \<notin> dma_flags ex_state" "DMA1_IT_HT1 \<notin> dma_flags ex_state"
    by (simp_all add: ex_state_def)
  have a: "alternating (map ev_signal ex_events)"
    by (simp add: ex_events_signals)
  have m: "PIOS_ADC_NUM_CHANNELS ex_build * unat (adc_oversample ex_state) = 6"
    by (simp add: ex_build_def ex_state_def)
  have l: "length ex_events = 3" "ev_signal (ex_events ! 0) = HalfTransfer"
    "ev_signal (ex_events ! 1) = FullTransfer" "ev_signal (ex_events ! 2) = HalfTransfer"
    by (simp_all add: ex_events_def)
  obtain ss where t: "trace ex_build ex_state ex_events = Inr ss" "length ss = length ex_events"
    and h: "\<forall>i<length ss.
              valid_half ex_build (ss ! i) =
                (if ev_signal (ex_events ! i) = HalfTransfer then {0 ..< 6} else {6 ..< 2 * 6})"
    and j: "\<forall>i. Suc i < length ss \<longrightarrow>
              valid_half ex_build (ss ! i) \<inter> valid_half ex_build (ss ! Suc i) = {} \<and>
              valid_half ex_build (ss ! i) \<union> valid_half ex_build (ss ! Suc i) = {0 ..< 2 * 6} \<and>
              ((0::nat) < 6 \<longrightarrow>
                 valid_half ex_build (ss ! i) \<noteq> valid_half ex_build (ss ! Suc i) \<and>
                 valid_data_buffer (ss ! i) \<noteq> valid_data_buffer (ss ! Suc i))"
    using published_halves_alternate [OF c ex_handler_in_bounds(1) a] unfolding m by blast
  have vh: "valid_half ex_build (ss ! 0) = {0..<6}" "valid_half ex_build (ss ! 1) = {6..<12}"
    "valid_half ex_build (ss ! 2) = {0..<6}"
    using h [rule_format, of 0] h [rule_format, of 1] h [rule_format, of 2] t(2) l
    by simp_all
  have ne: "valid_data_buffer (ss ! 0) \<noteq> valid_data_buffer (ss ! 1)"
    "valid_data_buffer (ss ! 1) \<noteq> valid_data_buffer (ss ! 2)"
    using j [rule_format, of 0] j [rule_format, of 1] t(2) l(1)
    by (simp_all add: numeral_2_eq_2)
  have "\<exists>ss. trace ex_build ex_state ex_events = Inr ss \<and> length ss = 3 \<and>
         valid_half ex_build (ss ! 0) = {0..<6} \<and>
         valid_half ex_build (ss ! 1) = {6..<12} \<and>
         valid_half ex_build (ss ! 2) = {0..<6} \<and>
         valid_half ex_build (ss ! 0) \<inter> valid_half ex_build (ss ! 1) = {} \<and>
         valid_half ex_build (ss ! 1) \<inter> valid_half ex_build (ss ! 2) = {} \<and>
         valid_data_buffer (ss ! 0) \<noteq> valid_data_buffer (ss ! 1) \<and>
         valid_data_buffer (ss ! 1) \<noteq> valid_data_buffer (ss ! 2)"
    using t l(1) vh ne by (intro exI [of _ ss]) simp
  moreover have "0 < PIOS_ADC_NUM_CHANNELS ex_build * unat (adc_oversample ex_state)"
    by (simp add: m)
  ultimately show ?thesis by (intro conjI c a ex_handler_in_bounds(1))
qed

text \<open>
  C4, amended. The raw buffer has the capacity \<^verbatim>\<open>MAX_SAMPLES\<close> of the build, and
  \<^verbatim>\<open>AHRS_ADC_Config\<close> leaves it so whatever the factor; what it sizes by the factor is the
  transfer, \<open>num_channels \<times> oversample \<times> 2\<close> samples, two to a word of
  \<^verbatim>\<open>DMA_BufferSize\<close>. The handler and the filter reach no element of the raw buffer at or
  beyond \<open>num_channels \<times> oversample \<times> 2\<close>: an index at which the handler leaves the
  buffer is below that product, and one at which the filter does, reading through a
  pointer at \<open>off\<close>, is below \<open>off + num_channels \<times> oversample\<close>. So with a buffer of at
  least \<open>num_channels \<times> oversample \<times> 2\<close> elements, and the tables in place, the handler
  returns whatever is pending, with the buffer as long as before and, after a completion
  signal, the pointer at index 0 or \<open>num_channels \<times> oversample\<close>. The index the filter
  forms for channel \<open>chan\<close> and sample \<open>sample\<close> is \<open>off + chan + sample \<times> num_channels\<close>,
  which for either pointer is below the product.
\<close>

theorem raw_buffer_indices:
  "length (raw_data_buffer (adc_init b e)) = MAX_SAMPLES b \<and>
   (AHRS_ADC_Config b ov s = Inr (s', r) \<longrightarrow>
      length (raw_data_buffer s') = length (raw_data_buffer s) \<and>
      (int (PIOS_ADC_NUM_CHANNELS b) * sint ov * 2 < 2 ^ 31 \<longrightarrow>
         sint (DMA_BufferSize s') * 2 = int (PIOS_ADC_NUM_CHANNELS b) * sint ov * 2)) \<and>
   (AHRS_ADC_DMA_Handler b t = Inl (RawIndex k) \<longrightarrow>
      length (raw_data_buffer t) \<le> k \<and>
      k < PIOS_ADC_NUM_CHANNELS b * unat (adc_oversample t) * 2) \<and>
   (AHRS_ADC_downsample_data b u = Inl (RawIndex j) \<and> valid_data_buffer u = Some off \<longrightarrow>
      length (raw_data_buffer u) \<le> j \<and>
      j < off + PIOS_ADC_NUM_CHANNELS b * unat (adc_oversample u)) \<and>
   (PIOS_ADC_NUM_CHANNELS b * unat (adc_oversample t) * 2 \<le> length (raw_data_buffer t) \<and>
    PIOS_ADC_NUM_CHANNELS b \<le> 65535 \<and>
    PIOS_ADC_NUM_CHANNELS b \<le> length (downsampled_buffer t) \<and>
    unat (adc_oversample t) < length (fir_coeffs t) \<longrightarrow>
      (\<exists>t'. AHRS_ADC_DMA_Handler b t = Inr t' \<and>
            length (raw_data_buffer t') = length (raw_data_buffer t) \<and>
            (DMA_GetFlagStatus DMA1_IT_TC1 t \<or> DMA_GetFlagStatus DMA1_IT_HT1 t \<longrightarrow>
               valid_data_buffer t' = Some 0 \<or>
               valid_data_buffer t' = Some (PIOS_ADC_NUM_CHANNELS b * unat (adc_oversample t))))) \<and>
   (\<forall>chan<PIOS_ADC_NUM_CHANNELS b. \<forall>sample<f.
      raw_index b 0 chan sample < PIOS_ADC_NUM_CHANNELS b * f * 2 \<and>
      raw_index b (PIOS_ADC_NUM_CHANNELS b * f) chan sample < PIOS_ADC_NUM_CHANNELS b * f * 2 \<and>
      (PIOS_ADC_NUM_CHANNELS b * f * 2 \<le> MAX_SAMPLES b \<longrightarrow>
         raw_index b 0 chan sample < MAX_SAMPLES b \<and>
         raw_index b (PIOS_ADC_NUM_CHANNELS b * f) chan sample < MAX_SAMPLES b))"
proof (intro conjI impI allI)
  show "length (raw_data_buffer (adc_init b e)) = MAX_SAMPLES b"
    by (simp add: adc_init_def)
next
  assume "AHRS_ADC_Config b ov s = Inr (s', r)"
  then show "length (raw_data_buffer s') = length (raw_data_buffer s)"
    by (simp add: Config_raw(2))
next
  assume a: "AHRS_ADC_Config b ov s = Inr (s', r)"
    and l: "int (PIOS_ADC_NUM_CHANNELS b) * sint ov * 2 < 2 ^ 31"
  show "sint (DMA_BufferSize s') * 2 = int (PIOS_ADC_NUM_CHANNELS b) * sint ov * 2"
    unfolding Config_raw(3) [OF a]
    by (rule DMA_BufferSize_samples [OF Config_raw(1) [OF a] l])
next
  assume a: "AHRS_ADC_DMA_Handler b t = Inl (RawIndex k)"
  show "length (raw_data_buffer t) \<le> k"
    "k < PIOS_ADC_NUM_CHANNELS b * unat (adc_oversample t) * 2"
    using handler_RawIndex [OF a] by simp_all
next
  assume a: "AHRS_ADC_downsample_data b u = Inl (RawIndex j) \<and> valid_data_buffer u = Some off"
  show "length (raw_data_buffer u) \<le> j"
    "j < off + PIOS_ADC_NUM_CHANNELS b * unat (adc_oversample u)"
    using downsample_RawIndex [of b u j off] a by simp_all
next
  assume "PIOS_ADC_NUM_CHANNELS b * unat (adc_oversample t) * 2 \<le> length (raw_data_buffer t) \<and>
    PIOS_ADC_NUM_CHANNELS b \<le> 65535 \<and>
    PIOS_ADC_NUM_CHANNELS b \<le> length (downsampled_buffer t) \<and>
    unat (adc_oversample t) < length (fir_coeffs t)"
  then have "handler_in_bounds b t"
    by (simp add: handler_in_bounds_def filter_in_bounds_def)
  then show "\<exists>t'. AHRS_ADC_DMA_Handler b t = Inr t' \<and>
            length (raw_data_buffer t') = length (raw_data_buffer t) \<and>
            (DMA_GetFlagStatus DMA1_IT_TC1 t \<or> DMA_GetFlagStatus DMA1_IT_HT1 t \<longrightarrow>
               valid_data_buffer t' = Some 0 \<or>
               valid_data_buffer t' = Some (PIOS_ADC_NUM_CHANNELS b * unat (adc_oversample t)))"
    by (rule handler_returns)
next
  fix chan sample assume c: "chan < PIOS_ADC_NUM_CHANNELS b" "sample < f"
  show "raw_index b 0 chan sample < PIOS_ADC_NUM_CHANNELS b * f * 2"
    using raw_index_bound [OF c, of 0] by simp
  show "raw_index b (PIOS_ADC_NUM_CHANNELS b * f) chan sample < PIOS_ADC_NUM_CHANNELS b * f * 2"
    using raw_index_bound [OF c, of "PIOS_ADC_NUM_CHANNELS b * f"] by simp
  assume "PIOS_ADC_NUM_CHANNELS b * f * 2 \<le> MAX_SAMPLES b"
  then show "raw_index b 0 chan sample < MAX_SAMPLES b"
    "raw_index b (PIOS_ADC_NUM_CHANNELS b * f) chan sample < MAX_SAMPLES b"
    using raw_index_bound [OF c, of 0] raw_index_bound [OF c, of "PIOS_ADC_NUM_CHANNELS b * f"]
    by simp_all
qed

theorem raw_buffer_indices_witness:
  "AHRS_ADC_Config ex_build 3 (adc_init ex_build (0::nat)) = Inr (ex_configured3, 1) \<and>
   int (PIOS_ADC_NUM_CHANNELS ex_build) * sint (3 :: 32 word) * 2 < 2 ^ 31 \<and>
   length (raw_data_buffer ex_configured3) = 12 \<and>
   sint (DMA_BufferSize ex_configured3) * 2 = 12 \<and>
   AHRS_ADC_DMA_Handler ex_build ex_short = Inl (RawIndex 11) \<and>
   length (raw_data_buffer ex_short) \<le> 11 \<and>
   (11::nat) < PIOS_ADC_NUM_CHANNELS ex_build * unat (adc_oversample ex_short) * 2 \<and>
   AHRS_ADC_downsample_data ex_build (ex_short\<lparr>valid_data_buffer := Some 6\<rparr>) = Inl (RawIndex 11) \<and>
   (11::nat) < 6 + PIOS_ADC_NUM_CHANNELS ex_build * unat (adc_oversample ex_short) \<and>
   PIOS_ADC_NUM_CHANNELS ex_build * unat (adc_oversample ex_full_pending) * 2
     \<le> length (raw_data_buffer ex_full_pending) \<and>
   PIOS_ADC_NUM_CHANNELS ex_build \<le> length (downsampled_buffer ex_full_pending) \<and>
   unat (adc_oversample ex_full_pending) < length (fir_coeffs ex_full_pending) \<and>
   DMA_GetFlagStatus DMA1_IT_TC1 ex_full_pending \<and>
   (\<exists>t'. AHRS_ADC_DMA_Handler ex_build ex_full_pending = Inr t' \<and>
         length (raw_data_buffer t') = 12 \<and>
         (valid_data_buffer t' = Some 0 \<or> valid_data_buffer t' = Some 6)) \<and>
   PIOS_ADC_NUM_CHANNELS ex_build * 3 * 2 \<le> MAX_SAMPLES ex_build \<and>
   (1::nat) < PIOS_ADC_NUM_CHANNELS ex_build \<and>
   raw_index ex_build 6 1 2 < 12 \<and> raw_index ex_build 6 1 2 < MAX_SAMPLES ex_build"
proof -
  have h: "int (PIOS_ADC_NUM_CHANNELS ex_build) * sint (3 :: 32 word) * 2 < 2 ^ 31"
    "PIOS_ADC_NUM_CHANNELS ex_build * 3 * 2 \<le> MAX_SAMPLES ex_build"
    "(1::nat) < PIOS_ADC_NUM_CHANNELS ex_build" "(2::nat) < 3"
    by (simp_all add: ex_build_def)
  have g: "PIOS_ADC_NUM_CHANNELS ex_build * unat (adc_oversample ex_full_pending) * 2
       \<le> length (raw_data_buffer ex_full_pending)"
    "PIOS_ADC_NUM_CHANNELS ex_build \<le> 65535"
    "PIOS_ADC_NUM_CHANNELS ex_build \<le> length (downsampled_buffer ex_full_pending)"
    "unat (adc_oversample ex_full_pending) < length (fir_coeffs ex_full_pending)"
    "DMA_GetFlagStatus DMA1_IT_TC1 ex_full_pending"
    "length (raw_data_buffer ex_full_pending) = 12"
    "PIOS_ADC_NUM_CHANNELS ex_build * unat (adc_oversample ex_full_pending) = 6"
    by (simp_all add: ex_full_pending_def ex_state_def ex_build_def DMA_GetFlagStatus_def)
  have v: "valid_data_buffer (ex_short\<lparr>valid_data_buffer := Some 6\<rparr>) = Some 6"
    "unat (adc_oversample (ex_short\<lparr>valid_data_buffer := Some 6\<rparr>)) = unat (adc_oversample ex_short)"
    "length (raw_data_buffer (ex_short\<lparr>valid_data_buffer := Some 6\<rparr>)) = length (raw_data_buffer ex_short)"
    by simp_all
  note t = raw_buffer_indices [of ex_build "0::nat" 3 "adc_init ex_build (0::nat)"
      ex_configured3 1 ex_short 11 "ex_short\<lparr>valid_data_buffer := Some 6\<rparr>" 11 6 3]
  note t' = raw_buffer_indices [of ex_build "0::nat" 3 "adc_init ex_build (0::nat)"
      ex_configured3 1 ex_full_pending 11 "ex_short\<lparr>valid_data_buffer := Some 6\<rparr>" 11 6 3]
  have a: "length (raw_data_buffer ex_configured3) = 12"
    "sint (DMA_BufferSize ex_configured3) * 2 = 12"
    using t ex_Config3 h(1) by (simp_all add: ex_init ex_channels)
  have b: "length (raw_data_buffer ex_short) \<le> 11"
    "(11::nat) < PIOS_ADC_NUM_CHANNELS ex_build * unat (adc_oversample ex_short) * 2"
    using t ex_short_fault by simp_all
  have c: "(11::nat) < 6 + PIOS_ADC_NUM_CHANNELS ex_build * unat (adc_oversample ex_short)"
    using t ex_short_filter_fault v by simp
  have d: "\<exists>t'. AHRS_ADC_DMA_Handler ex_build ex_full_pending = Inr t' \<and>
         length (raw_data_buffer t') = 12 \<and>
         (valid_data_buffer t' = Some 0 \<or> valid_data_buffer t' = Some 6)"
    using t' g by (simp add: g(6,7))
  have i: "raw_index ex_build 6 1 2 < 12" "raw_index ex_build 6 1 2 < MAX_SAMPLES ex_build"
    using t h(2,3,4) by (auto simp: ex_channels)
  show ?thesis
    by (intro conjI ex_Config3 h(1-3) a b c d i g(1,3,4,5) ex_short_fault ex_short_filter_fault)
qed

text \<open>
  The capacity is not the product: the example build, configured for two samples per
  channel and then for three, has the same twelve elements both times; for two samples
  the product is 8.
\<close>

theorem raw_capacity_counterexample:
  "AHRS_ADC_Config ex_build 2 (adc_init ex_build (0::nat)) = Inr (ex_configured2, 1) \<and>
   AHRS_ADC_Config ex_build 3 (adc_init ex_build (0::nat)) = Inr (ex_configured3, 1) \<and>
   length (raw_data_buffer ex_configured2) = 12 \<and>
   length (raw_data_buffer ex_configured3) = 12 \<and>
   PIOS_ADC_NUM_CHANNELS ex_build * unat (adc_oversample ex_configured2) * 2 = 8 \<and>
   PIOS_ADC_NUM_CHANNELS ex_build * unat (adc_oversample ex_configured3) * 2 = 12"
  by (simp add: ex_Config2 ex_Config3 ex_channels) (simp add: ex_configured2_def ex_configured3_def)

text \<open>
  C5. For an oversample factor that has a divisor slot in the coefficient table and
  fits the \<^verbatim>\<open>int16_t\<close> of that slot, \<^verbatim>\<open>AHRS_ADC_Config\<close> returns 1 and leaves the
  averaging filter in the table: each of the first \<open>oversample\<close> weights is 1 and the
  entry at index \<open>oversample\<close> is \<open>oversample\<close>. A factor up to 255 is also what the
  \<^verbatim>\<open>uint8_t\<close> member \<^verbatim>\<open>adc_oversample\<close> then holds.
\<close>

theorem Config_boxcar:
  assumes "0 \<le> sint ov" and "sint ov < int (length (fir_coeffs s))" and "sint ov \<le> 32767"
  shows "\<exists>s'. AHRS_ADC_Config b ov s = Inr (s', 1) \<and>
           length (fir_coeffs s') = length (fir_coeffs s) \<and>
           (\<forall>i<nat (sint ov). fir_coeffs s' ! i = 1) \<and>
           sint (fir_coeffs s' ! nat (sint ov)) = sint ov \<and>
           (sint ov \<le> 255 \<longrightarrow> uint (adc_oversample s') = sint ov)"
proof -
  have lt: "nat (sint ov) < length (fir_coeffs s)" using assms(1,2) by simp
  show ?thesis
    unfolding Config_ok [OF assms(1,2)] using lt assms
    by (simp add: nth_append sint_ucast16 uint_ucast8)
qed

theorem Config_boxcar_witness:
  "0 \<le> sint (3 :: 32 word) \<and>
   sint (3 :: 32 word) < int (length (fir_coeffs (adc_init ex_build (0::nat)))) \<and>
   sint (3 :: 32 word) \<le> 32767 \<and>
   (\<exists>s'. AHRS_ADC_Config ex_build 3 (adc_init ex_build (0::nat)) = Inr (s', 1) \<and>
         fir_coeffs s' ! 0 = 1 \<and> fir_coeffs s' ! 1 = 1 \<and> fir_coeffs s' ! 2 = 1 \<and>
         sint (fir_coeffs s' ! 3) = 3 \<and> uint (adc_oversample s') = 3)"
proof -
  have h: "0 \<le> sint (3 :: 32 word)"
    "sint (3 :: 32 word) < int (length (fir_coeffs (adc_init ex_build (0::nat))))"
    "sint (3 :: 32 word) \<le> 32767"
    by (simp_all add: ex_init)
  obtain s' where r: "AHRS_ADC_Config ex_build 3 (adc_init ex_build (0::nat)) = Inr (s', 1)"
    and w: "\<forall>i<nat (sint (3 :: 32 word)). fir_coeffs s' ! i = 1"
    and d: "sint (fir_coeffs s' ! nat (sint (3 :: 32 word))) = sint (3 :: 32 word)"
    and o: "sint (3 :: 32 word) \<le> 255 \<longrightarrow> uint (adc_oversample s') = sint (3 :: 32 word)"
    using Config_boxcar [OF h, of ex_build] by blast
  have "fir_coeffs s' ! 0 = 1" "fir_coeffs s' ! 1 = 1" "fir_coeffs s' ! 2 = 1"
    using w by (simp_all add: ex_words)
  moreover have "sint (fir_coeffs s' ! 3) = 3" "uint (adc_oversample s') = 3"
    using d o by (simp_all add: ex_words)
  ultimately show ?thesis using h r by blast
qed

text \<open>
  C6. With a callback registered and the elements of both halves in place, a run of
  \<open>N\<close> half-transfer or full-transfer signals makes the handler return \<open>N\<close> times. The
  consumer's state after each signal is the callback applied, once, to the downsampled
  buffer as that signal's pass wrote it (the filtered values of the half then
  published) and to the consumer's state before the signal; so after the run it is the
  callback folded over the \<open>N\<close> buffers in the order of the signals.
\<close>

theorem callback_once_per_signal:
  assumes "callback_function s = Some cb" and "handler_in_bounds b s"
    and "\<forall>ev\<in>set evs. ev_signal ev = HalfTransfer \<or> ev_signal ev = FullTransfer"
  shows "\<exists>ss. trace b s evs = Inr ss \<and> length ss = length evs \<and>
           (\<forall>i<length ss.
              consumer (ss ! i) = cb (downsampled_buffer (ss ! i)) (consumer ((s # ss) ! i)) \<and>
              (\<exists>off. valid_data_buffer (ss ! i) = Some off \<and>
                     downsampled_buffer (ss ! i) = filtered b (ss ! i) off)) \<and>
           consumer (last (s # ss)) =
             foldl (\<lambda>e t. cb (downsampled_buffer t) e) (consumer s) ss"
proof -
  have "\<forall>ev\<in>set evs. ev_signal ev \<noteq> TransferError"
    using assms(3) by auto
  then show ?thesis
    using trace_callback [OF assms(1,2)] by blast
qed

theorem callback_once_per_signal_witness:
  "callback_function ex_counting = Some (\<lambda>buf n. Suc n) \<and>
   handler_in_bounds ex_build ex_counting \<and>
   map ev_signal ex_events = [HalfTransfer, FullTransfer, HalfTransfer] \<and>
   (\<exists>ss. trace ex_build ex_counting ex_events = Inr ss \<and> length ss = 3 \<and>
         consumer (last (ex_counting # ss)) = 3)"
proof -
  have c: "callback_function ex_counting = Some (\<lambda>buf n. Suc n)" "consumer ex_counting = 0"
    by (simp_all add: ex_counting_def AHRS_ADC_SetCallback_def ex_state_def)
  have e: "\<forall>ev\<in>set ex_events. ev_signal ev = HalfTransfer \<or> ev_signal ev = FullTransfer"
    "length ex_events = 3"
    by (simp_all add: ex_events_def)
  obtain ss where "trace ex_build ex_counting ex_events = Inr ss" "length ss = length ex_events"
    "consumer (last (ex_counting # ss)) =
       foldl (\<lambda>e t. (\<lambda>buf n. Suc n) (downsampled_buffer t) e) (consumer ex_counting) ss"
    using callback_once_per_signal [OF c(1) ex_handler_in_bounds(2) e(1)] by blast
  then show ?thesis
    using c e(2) ex_handler_in_bounds(2) ex_events_signals by (simp add: foldl_count)
qed

text \<open>
  C7. With neither the full-transfer nor the half-transfer flag pending, the handler
  clears the generic flag of the transfer engine and returns; the pointer, the
  downsampled buffer, the coefficient table, the raw buffer and the consumer's state
  are as before: no pass has run and no callback was called.
\<close>

theorem handler_unexpected_signal:
  assumes "\<not> DMA_GetFlagStatus DMA1_IT_TC1 s" and "\<not> DMA_GetFlagStatus DMA1_IT_HT1 s"
  shows "\<exists>s'. AHRS_ADC_DMA_Handler b s = Inr s' \<and>
           \<not> DMA_GetFlagStatus DMA1_FLAG_GL1 s' \<and>
           dma_flags s' = dma_flags s - {DMA1_FLAG_GL1} \<and>
           valid_data_buffer s' = valid_data_buffer s \<and>
           downsampled_buffer s' = downsampled_buffer s \<and>
           fir_coeffs s' = fir_coeffs s \<and>
           raw_data_buffer s' = raw_data_buffer s \<and>
           adc_oversample s' = adc_oversample s \<and>
           callback_function s' = callback_function s \<and>
           consumer s' = consumer s"
  unfolding handler_other [OF assms] by (simp add: DMA_GetFlagStatus_def)

theorem handler_unexpected_signal_witness:
  "\<not> DMA_GetFlagStatus DMA1_IT_TC1 ex_error_pending \<and>
   \<not> DMA_GetFlagStatus DMA1_IT_HT1 ex_error_pending \<and>
   (\<exists>s'. AHRS_ADC_DMA_Handler ex_build ex_error_pending = Inr s' \<and>
         dma_flags s' = {} \<and> valid_data_buffer s' = Some 0 \<and>
         downsampled_buffer s' = [F32 False 0, F32 False 0] \<and>
         fir_coeffs s' = [1, 1, 1, 3] \<and> consumer s' = 0)"
proof -
  have h: "\<not> DMA_GetFlagStatus DMA1_IT_TC1 ex_error_pending"
    "\<not> DMA_GetFlagStatus DMA1_IT_HT1 ex_error_pending"
    by (simp_all add: DMA_GetFlagStatus_def ex_error_pending_def)
  show ?thesis
    using handler_unexpected_signal [OF h, of ex_build] h
    by (auto simp: ex_error_pending_def ex_state_def)
qed

text \<open>
  C8. Whatever callback is or is not registered, \<^verbatim>\<open>AHRS_ADC_downsample_data\<close> ends the same
  way, and where it returns it leaves the same \<^verbatim>\<open>downsampled_buffer\<close>. With none
  registered, and the elements of the pass in place, it returns, every channel holds
  \<^verbatim>\<open>(float)sum / coeff[oversample]\<close> of its weighted sum, the consumer's state is untouched
  and still no callback is registered.
\<close>

theorem downsample_without_callback:
  "map_sum id downsampled_buffer (AHRS_ADC_downsample_data b (s\<lparr>callback_function := None\<rparr>)) =
   map_sum id downsampled_buffer (AHRS_ADC_downsample_data b (s\<lparr>callback_function := Some cb\<rparr>)) \<and>
   (valid_data_buffer s = Some off \<and> filter_in_bounds b s off \<and> callback_function s = None \<longrightarrow>
      (\<exists>s'. AHRS_ADC_downsample_data b s = Inr s' \<and>
            consumer s' = consumer s \<and> callback_function s' = None \<and>
            length (downsampled_buffer s') = length (downsampled_buffer s) \<and>
            (\<forall>c<PIOS_ADC_NUM_CHANNELS b.
               downsampled_buffer s' ! c =
                 f32_div (f32_of_int (int32 (weighted_sum b s off c))) (f32_of_int (divisor s)))))"
proof (intro conjI impI)
  show "map_sum id downsampled_buffer (AHRS_ADC_downsample_data b (s\<lparr>callback_function := None\<rparr>)) =
   map_sum id downsampled_buffer (AHRS_ADC_downsample_data b (s\<lparr>callback_function := Some cb\<rparr>))"
    by (simp only: downsample_callback_buffer)
next
  assume a: "valid_data_buffer s = Some off \<and> filter_in_bounds b s off \<and> callback_function s = None"
  then have len: "length (filtered b s off) = length (downsampled_buffer s)"
    by (simp add: length_filtered filter_in_bounds_def)
  from a have "AHRS_ADC_downsample_data b s = Inr (s\<lparr>downsampled_buffer := filtered b s off\<rparr>)"
    by (simp add: downsample_ok)
  with a len show "\<exists>s'. AHRS_ADC_downsample_data b s = Inr s' \<and>
            consumer s' = consumer s \<and> callback_function s' = None \<and>
            length (downsampled_buffer s') = length (downsampled_buffer s) \<and>
            (\<forall>c<PIOS_ADC_NUM_CHANNELS b.
               downsampled_buffer s' ! c =
                 f32_div (f32_of_int (int32 (weighted_sum b s off c))) (f32_of_int (divisor s)))"
    by (simp add: filtered_nth filter_out_def)
qed

theorem downsample_without_callback_witness:
  "valid_data_buffer ex_state = Some 0 \<and> filter_in_bounds ex_build ex_state 0 \<and>
   callback_function ex_state = None \<and>
   (\<exists>s'. AHRS_ADC_downsample_data ex_build ex_state = Inr s' \<and>
         consumer s' = 0 \<and> callback_function s' = None \<and>
         downsampled_buffer s' ! 0 = F32 False 20 \<and> downsampled_buffer s' ! 1 = F32 False 5)"
proof -
  have v: "valid_data_buffer ex_state = Some 0" "callback_function ex_state = None"
    "consumer ex_state = 0"
    by (simp_all add: ex_state_def)
  have "\<exists>s'. AHRS_ADC_downsample_data ex_build ex_state = Inr s' \<and>
            consumer s' = consumer ex_state \<and> callback_function s' = None \<and>
            length (downsampled_buffer s') = length (downsampled_buffer ex_state) \<and>
            (\<forall>c<PIOS_ADC_NUM_CHANNELS ex_build.
               downsampled_buffer s' ! c =
                 f32_div (f32_of_int (int32 (weighted_sum ex_build ex_state 0 c)))
                   (f32_of_int (divisor ex_state)))"
    using downsample_without_callback [of ex_build ex_state "\<lambda>buf n. Suc n" 0] v ex_in_bounds
    by blast
  then obtain s' where r: "AHRS_ADC_downsample_data ex_build ex_state = Inr s'"
    "consumer s' = consumer ex_state" "callback_function s' = None"
    and c: "\<forall>c<PIOS_ADC_NUM_CHANNELS ex_build.
               downsampled_buffer s' ! c =
                 f32_div (f32_of_int (int32 (weighted_sum ex_build ex_state 0 c)))
                   (f32_of_int (divisor ex_state))"
    by blast
  have "downsampled_buffer s' ! 0 = F32 False 20"
    using c [rule_format, of 0] by (simp add: ex_channels ex_weighted_sum ex_divisor ex_quotients int32_id)
  moreover have "downsampled_buffer s' ! 1 = F32 False 5"
    using c [rule_format, of "Suc 0"]
    by (simp add: ex_channels ex_weighted_sum ex_divisor ex_quotients int32_id)
  ultimately show ?thesis using v ex_in_bounds r by simp
qed

text \<open>
  C9. Where the table has the divisor slot and each of the \<open>oversample + 1\<close> supplied
  values, the divisor among them, has an integral part that an \<^verbatim>\<open>int16_t\<close> holds,
  \<^verbatim>\<open>AHRS_ADC_SetFIRCoefficients\<close> returns, and each entry up to index \<open>oversample\<close> is the
  supplied value with its fractional part discarded. The filter then works with these
  integers: its divisor is the truncated last value, the weighted sum of a channel has
  the truncated weights, and a pass stores \<^verbatim>\<open>(float)sum / divisor\<close> of these.
\<close>

theorem SetFIRCoefficients_truncates:
  assumes "unat (adc_oversample s) < length (fir_coeffs s)"
    and "length new_filter = unat (adc_oversample s) + 1"
    and "\<forall>k\<le>unat (adc_oversample s). fits_int16 (new_filter ! k)"
  shows "\<exists>s'. AHRS_ADC_SetFIRCoefficients new_filter s = Inr s' \<and>
           length (fir_coeffs s') = length (fir_coeffs s) \<and>
           (\<forall>k\<le>unat (adc_oversample s). sint (fir_coeffs s' ! k) = truncated (new_filter ! k)) \<and>
           divisor s' = truncated (new_filter ! unat (adc_oversample s)) \<and>
           (\<forall>off chan.
              weighted_sum b s' off chan =
                (\<Sum>k\<leftarrow>[0..<unat (adc_oversample s)].
                   sint (raw_data_buffer s ! raw_index b off chan k) * truncated (new_filter ! k))) \<and>
           (\<forall>off. valid_data_buffer s = Some off \<and> filter_in_bounds b s off \<longrightarrow>
              (\<exists>t. AHRS_ADC_downsample_data b s' = Inr t \<and>
                   (\<forall>c<PIOS_ADC_NUM_CHANNELS b.
                      downsampled_buffer t ! c =
                        f32_div (f32_of_int (int32 (weighted_sum b s' off c)))
                                (f32_of_int (divisor s')))))"
proof -
  let ?f = "unat (adc_oversample s)"
  let ?cs = "map (\<lambda>x. word_of_int (truncated x) :: 16 word) (take (Suc ?f) new_filter)
             @ drop (Suc ?f) (fir_coeffs s)"
  let ?s' = "s\<lparr>fir_coeffs := ?cs\<rparr>"
  have lt: "?f < length new_filter" using assms(2) by simp
  have r: "AHRS_ADC_SetFIRCoefficients new_filter s = Inr ?s'"
    using SetFIR_ok [OF assms(1) lt assms(3)] .
  have len: "length (fir_coeffs ?s') = length (fir_coeffs s)"
    using assms(1,2) by simp
  have nth: "sint (fir_coeffs ?s' ! k) = truncated (new_filter ! k)" if "k \<le> ?f" for k
    using SetFIR_nth [OF that lt] assms(3) that by simp
  have dv: "divisor ?s' = truncated (new_filter ! ?f)"
    using nth [of ?f] by (simp add: divisor_def)
  have ws: "weighted_sum b ?s' off chan =
      (\<Sum>k\<leftarrow>[0..<?f]. sint (raw_data_buffer s ! raw_index b off chan k) * truncated (new_filter ! k))"
    for off chan
  proof -
    have "map (tap b ?s' off chan) [0..<?f] =
        map (\<lambda>k. sint (raw_data_buffer s ! raw_index b off chan k) * truncated (new_filter ! k)) [0..<?f]"
      using nth by (intro map_cong refl) (simp add: tap_def)
    from arg_cong [OF this, of sum_list] show ?thesis by (simp add: weighted_sum_def)
  qed
  have ds: "\<exists>t. AHRS_ADC_downsample_data b ?s' = Inr t \<and>
                   (\<forall>c<PIOS_ADC_NUM_CHANNELS b.
                      downsampled_buffer t ! c =
                        f32_div (f32_of_int (int32 (weighted_sum b ?s' off c)))
                                (f32_of_int (divisor ?s')))"
    if "valid_data_buffer s = Some off \<and> filter_in_bounds b s off" for off
  proof -
    have v: "valid_data_buffer ?s' = Some off" using that by simp
    have ib: "filter_in_bounds b ?s' off"
      using that len by (simp add: filter_in_bounds_def)
    show ?thesis
      unfolding downsample_ok [OF v ib]
      by (cases "callback_function s") (simp_all add: filtered_nth filter_out_def)
  qed
  have n': "\<forall>k\<le>?f. sint (fir_coeffs ?s' ! k) = truncated (new_filter ! k)"
    using nth by blast
  have ws': "\<forall>off chan. weighted_sum b ?s' off chan =
      (\<Sum>k\<leftarrow>[0..<?f]. sint (raw_data_buffer s ! raw_index b off chan k) * truncated (new_filter ! k))"
    using ws by blast
  have ds': "\<forall>off. valid_data_buffer s = Some off \<and> filter_in_bounds b s off \<longrightarrow>
              (\<exists>t. AHRS_ADC_downsample_data b ?s' = Inr t \<and>
                   (\<forall>c<PIOS_ADC_NUM_CHANNELS b.
                      downsampled_buffer t ! c =
                        f32_div (f32_of_int (int32 (weighted_sum b ?s' off c)))
                                (f32_of_int (divisor ?s'))))"
    using ds by blast
  show ?thesis
    by (rule exI [of _ ?s']) (intro conjI r len n' dv ws' ds')
qed

theorem SetFIRCoefficients_truncates_witness:
  "unat (adc_oversample ex_state) < length (fir_coeffs ex_state) \<and>
   length ex_filter = unat (adc_oversample ex_state) + 1 \<and>
   list_all fits_int16 ex_filter \<and>
   valid_data_buffer ex_state = Some 0 \<and> filter_in_bounds ex_build ex_state 0 \<and>
   (\<exists>s' t. AHRS_ADC_SetFIRCoefficients ex_filter ex_state = Inr s' \<and>
         map sint (fir_coeffs s') = [1, 2, 1, 4] \<and> divisor s' = 4 \<and>
         AHRS_ADC_downsample_data ex_build s' = Inr t \<and>
         downsampled_buffer t ! 0 = F32 False 20 \<and> downsampled_buffer t ! 1 = F32 False 5)"
proof -
  have f: "unat (adc_oversample ex_state) = 3" by (simp add: ex_state_def)
  have v: "valid_data_buffer ex_state = Some 0" by (simp add: ex_state_def)
  have h: "unat (adc_oversample ex_state) < length (fir_coeffs ex_state)"
    "length ex_filter = unat (adc_oversample ex_state) + 1"
    "\<forall>k\<le>unat (adc_oversample ex_state). fits_int16 (ex_filter ! k)"
    unfolding f using ex_filter_fits by (simp_all add: ex_state_def ex_filter_def)
  obtain s' where r: "AHRS_ADC_SetFIRCoefficients ex_filter ex_state = Inr s'"
    and l: "length (fir_coeffs s') = length (fir_coeffs ex_state)"
    and n: "\<forall>k\<le>unat (adc_oversample ex_state). sint (fir_coeffs s' ! k) = truncated (ex_filter ! k)"
    and d: "divisor s' = truncated (ex_filter ! unat (adc_oversample ex_state))"
    and ws: "\<forall>off chan.
              weighted_sum ex_build s' off chan =
                (\<Sum>k\<leftarrow>[0..<unat (adc_oversample ex_state)].
                   sint (raw_data_buffer ex_state ! raw_index ex_build off chan k)
                   * truncated (ex_filter ! k))"
    and ds: "\<forall>off. valid_data_buffer ex_state = Some off \<and> filter_in_bounds ex_build ex_state off \<longrightarrow>
              (\<exists>t. AHRS_ADC_downsample_data ex_build s' = Inr t \<and>
                   (\<forall>c<PIOS_ADC_NUM_CHANNELS ex_build.
                      downsampled_buffer t ! c =
                        f32_div (f32_of_int (int32 (weighted_sum ex_build s' off c)))
                                (f32_of_int (divisor s'))))"
    using SetFIRCoefficients_truncates [OF h, of ex_build] by blast
  have "length (map sint (fir_coeffs s')) = 4" using l by (simp add: ex_state_def)
  moreover have "map sint (fir_coeffs s') ! k = [1, 2, 1, 4] ! k" if "k < 4" for k
  proof -
    have "k = 0 \<or> k = Suc 0 \<or> k = Suc (Suc 0) \<or> k = Suc (Suc (Suc 0))" using that by auto
    moreover have "k \<le> unat (adc_oversample ex_state)" "k < length (fir_coeffs s')"
      using that f l by (simp_all add: ex_state_def)
    ultimately show ?thesis using n [rule_format, of k] ex_filter_values by auto
  qed
  ultimately have m: "map sint (fir_coeffs s') = [1, 2, 1, 4]"
    by (intro nth_equalityI) simp_all
  have d4: "divisor s' = 4" using d ex_filter_values(4) by (simp add: f numeral_3_eq_3)
  have w: "weighted_sum ex_build s' 0 0 = 80" "weighted_sum ex_build s' 0 (Suc 0) = 20"
    unfolding ws [rule_format] f
    by (simp_all add: upt_rec raw_index_def ex_channels ex_filter_values)
       (simp_all add: ex_state_def)
  obtain t where t: "AHRS_ADC_downsample_data ex_build s' = Inr t"
    and c: "\<forall>c<PIOS_ADC_NUM_CHANNELS ex_build.
              downsampled_buffer t ! c =
                f32_div (f32_of_int (int32 (weighted_sum ex_build s' 0 c))) (f32_of_int (divisor s'))"
    using ds [rule_format, of 0] v ex_in_bounds by blast
  have o: "downsampled_buffer t ! 0 = F32 False 20" "downsampled_buffer t ! 1 = F32 False 5"
    using c [rule_format, of 0] c [rule_format, of "Suc 0"]
    by (simp_all add: ex_channels w d4 ex_custom_quotients)
  have "\<exists>s' t. AHRS_ADC_SetFIRCoefficients ex_filter ex_state = Inr s' \<and>
         map sint (fir_coeffs s') = [1, 2, 1, 4] \<and> divisor s' = 4 \<and>
         AHRS_ADC_downsample_data ex_build s' = Inr t \<and>
         downsampled_buffer t ! 0 = F32 False 20 \<and> downsampled_buffer t ! 1 = F32 False 5"
    using r m d4 t o by (intro exI [of _ s'] exI [of _ t]) simp
  moreover have "list_all fits_int16 ex_filter"
    by code_simp
  ultimately show ?thesis by (intro conjI h(1,2) v ex_in_bounds)
qed

text \<open>
  C10. Let the coefficient table have exactly \<^verbatim>\<open>MAX_OVERSAMPLING\<close> entries.
  \<^verbatim>\<open>AHRS_ADC_Config\<close> completes its stores into the table exactly when its argument is
  at least 0 and below \<^verbatim>\<open>MAX_OVERSAMPLING\<close>; from \<^verbatim>\<open>MAX_OVERSAMPLING\<close> on, a store at
  index \<^verbatim>\<open>MAX_OVERSAMPLING\<close> falls outside the table, and for the argument
  \<^verbatim>\<open>MAX_OVERSAMPLING\<close> itself that store is the one of the divisor.
  \<^verbatim>\<open>AHRS_ADC_SetFIRCoefficients\<close> returns only if the configured factor is below
  \<^verbatim>\<open>MAX_OVERSAMPLING\<close>, and then does for every array of convertible values that is long
  enough; with the factor at \<^verbatim>\<open>MAX_OVERSAMPLING\<close> its last store, the divisor at index
  \<^verbatim>\<open>MAX_OVERSAMPLING\<close>, falls outside the table.
\<close>

theorem coefficient_stores_in_bounds:
  assumes "length (fir_coeffs s) = MAX_OVERSAMPLING b"
  shows "((\<exists>r. AHRS_ADC_Config b ov s = Inr r) \<longleftrightarrow>
            0 \<le> sint ov \<and> sint ov < int (MAX_OVERSAMPLING b)) \<and>
         (int (MAX_OVERSAMPLING b) \<le> sint ov \<longrightarrow>
            AHRS_ADC_Config b ov s = Inl (CoeffIndex (int (MAX_OVERSAMPLING b)))) \<and>
         (sint ov = int (MAX_OVERSAMPLING b) \<longrightarrow>
            (\<exists>s1. boxcar_loop (sint ov) (s\<lparr>adc_oversample := ucast ov,
                       DMA_BufferSize := signed_drop_bit 1
                         (word_of_nat (PIOS_ADC_NUM_CHANNELS b) * ov * 2)\<rparr>) 0 = Inr s1)) \<and>
         ((\<exists>s'. AHRS_ADC_SetFIRCoefficients new_filter s = Inr s') \<longrightarrow>
            unat (adc_oversample s) < MAX_OVERSAMPLING b) \<and>
         (unat (adc_oversample s) < MAX_OVERSAMPLING b \<and>
          unat (adc_oversample s) < length new_filter \<and>
          (\<forall>k\<le>unat (adc_oversample s). fits_int16 (new_filter ! k)) \<longrightarrow>
            (\<exists>s'. AHRS_ADC_SetFIRCoefficients new_filter s = Inr s')) \<and>
         (unat (adc_oversample s) = MAX_OVERSAMPLING b \<and>
          MAX_OVERSAMPLING b < length new_filter \<and>
          (\<forall>k\<le>MAX_OVERSAMPLING b. fits_int16 (new_filter ! k)) \<longrightarrow>
            AHRS_ADC_SetFIRCoefficients new_filter s =
              Inl (CoeffIndex (int (MAX_OVERSAMPLING b))))"
proof (intro conjI impI)
  show "(\<exists>r. AHRS_ADC_Config b ov s = Inr r) \<longleftrightarrow>
            0 \<le> sint ov \<and> sint ov < int (MAX_OVERSAMPLING b)"
    using Config_Inr_iff [of b ov s] assms by simp
next
  assume "int (MAX_OVERSAMPLING b) \<le> sint ov"
  then show "AHRS_ADC_Config b ov s = Inl (CoeffIndex (int (MAX_OVERSAMPLING b)))"
    using Config_fault(2) [of s ov b] assms by simp
next
  assume e: "sint ov = int (MAX_OVERSAMPLING b)"
  let ?s2 = "s\<lparr>adc_oversample := ucast ov,
                DMA_BufferSize := signed_drop_bit 1 (word_of_nat (PIOS_ADC_NUM_CHANNELS b) * ov * 2)\<rparr>"
  have "nat (sint ov) \<le> length (fir_coeffs ?s2)" using e assms by simp
  from boxcar_loop_ok [OF _ this, of 0]
  show "\<exists>s1. boxcar_loop (sint ov) ?s2 0 = Inr s1" by simp
next
  assume "\<exists>s'. AHRS_ADC_SetFIRCoefficients new_filter s = Inr s'"
  then show "unat (adc_oversample s) < MAX_OVERSAMPLING b"
    using set_coeffs_loop_bound [of new_filter s 0] assms
    by (auto simp: AHRS_ADC_SetFIRCoefficients_def)
next
  assume "unat (adc_oversample s) < MAX_OVERSAMPLING b \<and>
          unat (adc_oversample s) < length new_filter \<and>
          (\<forall>k\<le>unat (adc_oversample s). fits_int16 (new_filter ! k))"
  then show "\<exists>s'. AHRS_ADC_SetFIRCoefficients new_filter s = Inr s'"
    using SetFIR_ok [of s new_filter] assms by simp
next
  assume a: "unat (adc_oversample s) = MAX_OVERSAMPLING b \<and>
          MAX_OVERSAMPLING b < length new_filter \<and>
          (\<forall>k\<le>MAX_OVERSAMPLING b. fits_int16 (new_filter ! k))"
  then show "AHRS_ADC_SetFIRCoefficients new_filter s =
              Inl (CoeffIndex (int (MAX_OVERSAMPLING b)))"
    using set_coeffs_loop_fault [of s new_filter 0] assms
    by (simp add: AHRS_ADC_SetFIRCoefficients_def)
qed

theorem coefficient_stores_in_bounds_witness:
  "length (fir_coeffs ex_full_table) = MAX_OVERSAMPLING ex_build \<and>
   sint (4 :: 32 word) = int (MAX_OVERSAMPLING ex_build) \<and>
   unat (adc_oversample ex_full_table) = MAX_OVERSAMPLING ex_build \<and>
   MAX_OVERSAMPLING ex_build < length ex_filter5 \<and>
   list_all fits_int16 ex_filter5 \<and>
   AHRS_ADC_Config ex_build 4 ex_full_table = Inl (CoeffIndex 4) \<and>
   AHRS_ADC_SetFIRCoefficients ex_filter5 ex_full_table = Inl (CoeffIndex 4) \<and>
   length (fir_coeffs ex_state) = MAX_OVERSAMPLING ex_build \<and>
   0 \<le> sint (3 :: 32 word) \<and> sint (3 :: 32 word) < int (MAX_OVERSAMPLING ex_build) \<and>
   unat (adc_oversample ex_state) < MAX_OVERSAMPLING ex_build \<and>
   unat (adc_oversample ex_state) < length ex_filter \<and>
   list_all fits_int16 ex_filter \<and>
   (\<exists>r. AHRS_ADC_Config ex_build 3 ex_state = Inr r) \<and>
   (\<exists>s'. AHRS_ADC_SetFIRCoefficients ex_filter ex_state = Inr s')"
proof -
  have m: "MAX_OVERSAMPLING ex_build = 4" by (simp add: ex_build_def)
  have h: "length (fir_coeffs ex_full_table) = MAX_OVERSAMPLING ex_build"
    "sint (4 :: 32 word) = int (MAX_OVERSAMPLING ex_build)"
    "unat (adc_oversample ex_full_table) = MAX_OVERSAMPLING ex_build"
    "MAX_OVERSAMPLING ex_build < length ex_filter5"
    "\<forall>k\<le>MAX_OVERSAMPLING ex_build. fits_int16 (ex_filter5 ! k)"
    unfolding m using ex_filter5_fits
    by (simp_all add: ex_full_table_def ex_state_def ex_filter5_def)
  have g: "length (fir_coeffs ex_state) = MAX_OVERSAMPLING ex_build"
    "0 \<le> sint (3 :: 32 word)" "sint (3 :: 32 word) < int (MAX_OVERSAMPLING ex_build)"
    "unat (adc_oversample ex_state) < MAX_OVERSAMPLING ex_build"
    "unat (adc_oversample ex_state) < length ex_filter"
    "\<forall>k\<le>unat (adc_oversample ex_state). fits_int16 (ex_filter ! k)"
    unfolding m using ex_filter_fits
    by (simp_all add: ex_state_def ex_filter_def)
  have c: "AHRS_ADC_Config ex_build 4 ex_full_table = Inl (CoeffIndex 4)"
    using coefficient_stores_in_bounds [OF h(1), of 4 ex_filter5] h(2) by (simp add: m)
  have f: "AHRS_ADC_SetFIRCoefficients ex_filter5 ex_full_table = Inl (CoeffIndex 4)"
    using coefficient_stores_in_bounds [OF h(1), of 4 ex_filter5] h(3,4,5) by (simp add: m)
  have c3: "\<exists>r. AHRS_ADC_Config ex_build 3 ex_state = Inr r"
    using coefficient_stores_in_bounds [OF g(1), of 3 ex_filter] g(2,3) by blast
  have f3: "\<exists>s'. AHRS_ADC_SetFIRCoefficients ex_filter ex_state = Inr s'"
    using coefficient_stores_in_bounds [OF g(1), of 3 ex_filter] g(4,5,6) by blast
  have l: "list_all fits_int16 ex_filter5" "list_all fits_int16 ex_filter"
    by code_simp+
  show ?thesis by (intro conjI h(1-4) l c f g(1-5) c3 f3)
qed

end
